(* ===== verification/Prelude.thy ===== *)
theory Prelude
  imports Main "HOL-Library.Word" "HOL-Library.Sublist" "HOL-Library.Code_Target_Numeral"
begin

text \<open>
  Shared vocabulary of the development: the machine integer types, byte strings, the
  big-endian and little-endian encodings that the Rust integer methods
  \<open>from_be_bytes\<close>, \<open>to_be_bytes\<close>, \<open>from_le_bytes\<close> and \<open>to_le_bytes\<close> compute, masking
  with a repeated key, and generic list lemmas. The collection \<open>byte_simps\<close> gathers the
  round trips of the encodings.
\<close>

unbundle bit_operations_syntax

named_theorems byte_simps

type_synonym byte = "8 word"
type_synonym bytes = "byte list"
type_synonym u8 = "8 word"
type_synonym u16 = "16 word"
type_synonym i16 = "16 word"
type_synonym u32 = "32 word"
type_synonym u64 = "64 word"
type_synonym u128 = "128 word"

section \<open>Integers as byte strings\<close>

text \<open>Most significant byte first: the value of a byte string, and the \<open>k\<close> bytes of a value.\<close>

definition be_nat :: "bytes \<Rightarrow> nat" where
  "be_nat bs = foldl (\<lambda>a b. a * 256 + unat b) 0 bs"

primrec nat_be :: "nat \<Rightarrow> nat \<Rightarrow> bytes" where
  "nat_be 0 n = []"
| "nat_be (Suc k) n = nat_be k (n div 256) @ [word_of_nat n]"

definition from_be_bytes :: "bytes \<Rightarrow> 'a::len word" where
  "from_be_bytes bs = word_of_nat (be_nat bs)"

definition to_be_bytes :: "nat \<Rightarrow> 'a::len word \<Rightarrow> bytes" where
  "to_be_bytes k w = nat_be k (unat w)"

definition from_le_bytes :: "bytes \<Rightarrow> 'a::len word" where
  "from_le_bytes bs = from_be_bytes (rev bs)"

definition to_le_bytes :: "nat \<Rightarrow> 'a::len word \<Rightarrow> bytes" where
  "to_le_bytes k w = rev (to_be_bytes k w)"

text \<open>Byte \<open>i\<close> of the string is xored with \<open>f i\<close>.\<close>

primrec xor_with :: "(nat \<Rightarrow> byte) \<Rightarrow> bytes \<Rightarrow> bytes" where
  "xor_with f [] = []"
| "xor_with f (b # bs) = (b XOR f 0) # xor_with (\<lambda>i. f (Suc i)) bs"

section \<open>Lemmas\<close>

lemma length_nat_be [simp]: "length (nat_be k n) = k"
  by (induction k arbitrary: n) simp_all

lemma be_nat_Nil [simp]: "be_nat [] = 0"
  by (simp add: be_nat_def)

lemma be_nat_snoc [simp]: "be_nat (bs @ [b]) = be_nat bs * 256 + unat b"
  by (simp add: be_nat_def)

lemma unat_byte_bound [simp]: "unat (b :: byte) < 256"
  using unsigned_less [of b] by simp

lemma unat_of_nat_byte [simp]: "unat (word_of_nat n :: byte) = n mod 256"
  by (simp add: unat_of_nat)

lemma be_nat_nat_be [byte_simps]: "be_nat (nat_be k n) = n mod 256 ^ k"
proof (induction k arbitrary: n)
  case 0
  then show ?case by simp
next
  case (Suc k)
  have "n mod 256 ^ Suc k = n mod (256 * 256 ^ k)" by simp
  also have "\<dots> = 256 * (n div 256 mod 256 ^ k) + n mod 256" by (rule mod_mult2_eq)
  finally show ?case by (simp add: Suc.IH)
qed

lemma nat_be_be_nat [byte_simps]: "nat_be (length bs) (be_nat bs) = bs"
proof (induction bs rule: rev_induct)
  case Nil
  then show ?case by simp
next
  case (snoc b bs)
  have "(be_nat bs * 256 + unat b) div 256 = be_nat bs"
    using unat_byte_bound [of b] by simp
  moreover have "word_of_nat (be_nat bs * 256 + unat b) = b"
    by (simp add: word_unat_eq_iff unat_of_nat del: of_nat_add of_nat_mult)
  ultimately show ?case
    using snoc.IH by simp
qed

lemma be_nat_bound: "be_nat bs < 256 ^ length bs"
proof (induction bs rule: rev_induct)
  case Nil
  then show ?case by simp
next
  case (snoc b bs)
  have "be_nat bs * 256 + unat b < (be_nat bs + 1) * 256"
    using unat_byte_bound [of b] by simp
  also have "\<dots> \<le> 256 ^ length bs * 256"
    using snoc.IH by (intro mult_le_mono1) simp
  finally show ?case by (simp add: mult.commute)
qed

lemma power_256: "(256 :: nat) ^ k = 2 ^ (k * 8)"
  using power_mult [of "2 :: nat" 8 k] by (simp add: mult.commute)

lemma to_from_be_bytes [byte_simps]:
  assumes "k * 8 = LENGTH('a::len)" and "length bs = k"
  shows "to_be_bytes k (from_be_bytes bs :: 'a word) = bs"
proof -
  have "be_nat bs < 2 ^ LENGTH('a)"
    using be_nat_bound [of bs] assms(2) by (simp add: assms(1) [symmetric] power_256)
  then have "unat (word_of_nat (be_nat bs) :: 'a word) = be_nat bs"
    by (simp add: unat_of_nat)
  then show ?thesis
    using nat_be_be_nat [of bs] assms(2) by (simp add: to_be_bytes_def from_be_bytes_def)
qed

lemma from_to_be_bytes [byte_simps]:
  assumes "k * 8 = LENGTH('a::len)"
  shows "from_be_bytes (to_be_bytes k w) = (w :: 'a word)"
proof -
  have "unat w < 256 ^ k"
    using unsigned_less [of w, where 'a = nat] by (simp add: assms [symmetric] power_256)
  then show ?thesis
    by (simp add: to_be_bytes_def from_be_bytes_def be_nat_nat_be)
qed

lemma length_to_be_bytes [simp]: "length (to_be_bytes k w) = k"
  by (simp add: to_be_bytes_def)

lemma length_to_le_bytes [simp]: "length (to_le_bytes k w) = k"
  by (simp add: to_le_bytes_def)

lemma from_to_le_bytes [byte_simps]:
  "k * 8 = LENGTH('a::len) \<Longrightarrow> from_le_bytes (to_le_bytes k w) = (w :: 'a word)"
  by (simp add: from_le_bytes_def to_le_bytes_def from_to_be_bytes)

lemma xor_cancel_left [simp]: "a XOR (b XOR a) = b" "(a XOR b) XOR a = b" for a b :: "'a::len word"
  by (rule bit_word_eqI; auto simp: bit_simps)+

lemma length_xor_with [simp]: "length (xor_with f bs) = length bs"
  by (induction bs arbitrary: f) simp_all

lemma nth_xor_with [simp]: "i < length bs \<Longrightarrow> xor_with f bs ! i = bs ! i XOR f i"
  by (induction bs arbitrary: f i) (auto simp: less_Suc_eq_0_disj)

lemma xor_with_twice [simp]: "xor_with f (xor_with f bs) = bs"
  by (induction bs arbitrary: f) (simp_all add: xor.assoc)

lemma xor_with_append:
  "xor_with f (xs @ ys) = xor_with f xs @ xor_with (\<lambda>i. f (length xs + i)) ys"
  by (induction xs arbitrary: f) simp_all

lemma xor_with_Nil_iff [simp]: "xor_with f bs = [] \<longleftrightarrow> bs = []"
  by (cases bs) simp_all

end
