(* ===== verification/Rust_Str.thy ===== *)
theory Rust_Str
  imports Prelude
begin

text \<open>
  The parts of Rust's \<open>str\<close> that the program uses. A Rust string is a sequence of bytes
  in UTF-8, and so is a \<open>string\<close> here: one \<open>char\<close> per byte. ASCII patterns (\<open>':'\<close>, \<open>','\<close>,
  \<open>'['\<close>) are single bytes that never occur inside a longer encoding, so splitting and
  searching for them is done bytewise. \<open>str::trim\<close> and \<open>split_whitespace\<close> work on Unicode
  white space, whose encodings are listed in \<open>ws_encodings\<close>.
\<close>

section \<open>Bytes and strings\<close>

definition bytes_of :: "string \<Rightarrow> bytes" where
  "bytes_of s = map (\<lambda>c. word_of_nat (of_char c)) s"

definition str_of :: "bytes \<Rightarrow> string" where
  "str_of bs = map (\<lambda>b. char_of (unat b)) bs"

section \<open>UTF-8 validation and lossy decoding\<close>

text \<open>
  \<open>utf8_next bs\<close> inspects the head of \<open>bs\<close>: whether a well-formed character starts there,
  and how many bytes it has; for an ill-formed one, how many bytes the decoder skips
  before it resumes.
\<close>

definition is_cont :: "byte \<Rightarrow> bool" where
  "is_cont b \<longleftrightarrow> 0x80 \<le> b \<and> b \<le> 0xBF"

definition utf8_width :: "byte \<Rightarrow> nat" where
  "utf8_width b =
     (if b < 0x80 then 1
      else if 0xC2 \<le> b \<and> b \<le> 0xDF then 2
      else if 0xE0 \<le> b \<and> b \<le> 0xEF then 3
      else if 0xF0 \<le> b \<and> b \<le> 0xF4 then 4
      else 0)"

definition second_ok :: "byte \<Rightarrow> byte \<Rightarrow> bool" where
  "second_ok b c =
     (if b = 0xE0 then 0xA0 \<le> c \<and> c \<le> 0xBF
      else if b = 0xED then 0x80 \<le> c \<and> c \<le> 0x9F
      else if b = 0xF0 then 0x90 \<le> c \<and> c \<le> 0xBF
      else if b = 0xF4 then 0x80 \<le> c \<and> c \<le> 0x8F
      else is_cont c)"

fun utf8_next :: "bytes \<Rightarrow> bool \<times> nat" where
  "utf8_next [] = (True, 0)"
| "utf8_next (b # bs) =
     (if utf8_width b = 0 then (False, 1)
      else if utf8_width b = 1 then (True, 1)
      else (case bs of
          [] \<Rightarrow> (False, 1)
        | c # bs2 \<Rightarrow>
            if \<not> second_ok b c then (False, 1)
            else if utf8_width b = 2 then (True, 2)
            else (case bs2 of
                [] \<Rightarrow> (False, 2)
              | d # bs3 \<Rightarrow>
                  if \<not> is_cont d then (False, 2)
                  else if utf8_width b = 3 then (True, 3)
                  else (case bs3 of
                      [] \<Rightarrow> (False, 3)
                    | e # _ \<Rightarrow> if is_cont e then (True, 4) else (False, 3)))))"

lemma utf8_next_pos: "bs \<noteq> [] \<Longrightarrow> 0 < snd (utf8_next bs)"
  by (cases bs) (simp_all split: list.split)

function valid_utf8 :: "bytes \<Rightarrow> bool" where
  "valid_utf8 bs =
     (if bs = [] then True
      else fst (utf8_next bs) \<and> valid_utf8 (drop (snd (utf8_next bs)) bs))"
  by pat_completeness auto
termination
  by (relation "measure length") (auto simp: utf8_next_pos)

declare valid_utf8.simps [simp del]

definition from_utf8 :: "bytes \<Rightarrow> string option" where
  "from_utf8 bs = (if valid_utf8 bs then Some (str_of bs) else None)"

function utf8_lossy :: "bytes \<Rightarrow> bytes" where
  "utf8_lossy bs =
     (if bs = [] then []
      else (if fst (utf8_next bs) then take (snd (utf8_next bs)) bs else [0xEF, 0xBF, 0xBD])
           @ utf8_lossy (drop (snd (utf8_next bs)) bs))"
  by pat_completeness auto
termination
  by (relation "measure length") (auto simp: utf8_next_pos)

declare utf8_lossy.simps [simp del]

definition from_utf8_lossy :: "bytes \<Rightarrow> string" where
  "from_utf8_lossy bs = str_of (utf8_lossy bs)"

section \<open>White space\<close>

definition ws_encodings :: "string list" where
  "ws_encodings =
     [[CHR 0x09], [CHR 0x0A], [CHR 0x0B], [CHR 0x0C], [CHR 0x0D], [CHR 0x20],
      [CHR 0xC2, CHR 0x85], [CHR 0xC2, CHR 0xA0], [CHR 0xE1, CHR 0x9A, CHR 0x80],
      [CHR 0xE2, CHR 0x80, CHR 0x80], [CHR 0xE2, CHR 0x80, CHR 0x81],
      [CHR 0xE2, CHR 0x80, CHR 0x82], [CHR 0xE2, CHR 0x80, CHR 0x83],
      [CHR 0xE2, CHR 0x80, CHR 0x84], [CHR 0xE2, CHR 0x80, CHR 0x85],
      [CHR 0xE2, CHR 0x80, CHR 0x86], [CHR 0xE2, CHR 0x80, CHR 0x87],
      [CHR 0xE2, CHR 0x80, CHR 0x88], [CHR 0xE2, CHR 0x80, CHR 0x89],
      [CHR 0xE2, CHR 0x80, CHR 0x8A], [CHR 0xE2, CHR 0x80, CHR 0xA8],
      [CHR 0xE2, CHR 0x80, CHR 0xA9], [CHR 0xE2, CHR 0x80, CHR 0xAF],
      [CHR 0xE2, CHR 0x81, CHR 0x9F], [CHR 0xE3, CHR 0x80, CHR 0x80]]"

text \<open>\<open>strip_count ws s\<close> is the length of the first encoding of \<open>ws\<close> that \<open>s\<close> starts with, or 0.\<close>

fun strip_count :: "string list \<Rightarrow> string \<Rightarrow> nat" where
  "strip_count [] s = 0"
| "strip_count (w # ws) s = (if take (length w) s = w then length w else strip_count ws s)"

lemma strip_count_le: "strip_count ws s \<le> length s"
  by (induction ws) (auto, metis length_take min.cobounded1)

lemma strip_count_shrinks [simp]:
  "0 < strip_count ws s \<Longrightarrow> length s - strip_count ws s < length s"
  using strip_count_le [of ws s] by linarith

function strip_start :: "string list \<Rightarrow> string \<Rightarrow> string" where
  "strip_start ws s =
     (if strip_count ws s = 0 then s else strip_start ws (drop (strip_count ws s) s))"
  by pat_completeness auto
termination
  by (relation "measure (length \<circ> snd)") auto

declare strip_start.simps [simp del]

definition trim_start :: "string \<Rightarrow> string" where
  "trim_start s = strip_start ws_encodings s"

definition trim_end :: "string \<Rightarrow> string" where
  "trim_end s = rev (strip_start (map rev ws_encodings) (rev s))"

definition trim :: "string \<Rightarrow> string" where
  "trim s = trim_end (trim_start s)"

text \<open>\<open>split_whitespace\<close>: the maximal runs without white space, \<open>acc\<close> holding the current run.\<close>

function split_ws_from :: "string \<Rightarrow> string \<Rightarrow> string list" where
  "split_ws_from acc s =
     (if s = [] then (if acc = [] then [] else [acc])
      else if strip_count ws_encodings s = 0 then split_ws_from (acc @ [hd s]) (tl s)
      else (if acc = [] then [] else [acc])
           @ split_ws_from [] (drop (strip_count ws_encodings s) s))"
  by pat_completeness auto
termination
  by (relation "measure (length \<circ> snd)") auto

declare split_ws_from.simps [simp del]

definition split_whitespace :: "string \<Rightarrow> string list" where
  "split_whitespace s = split_ws_from [] s"

section \<open>Splitting and stripping\<close>

fun split_on :: "('a \<Rightarrow> bool) \<Rightarrow> 'a list \<Rightarrow> 'a list list" where
  "split_on p [] = [[]]"
| "split_on p (c # cs) =
     (if p c then [] # split_on p cs
      else (case split_on p cs of [] \<Rightarrow> [[c]] | g # gs \<Rightarrow> (c # g) # gs))"

fun split_once :: "char \<Rightarrow> string \<Rightarrow> (string \<times> string) option" where
  "split_once d [] = None"
| "split_once d (c # cs) =
     (if c = d then Some ([], cs)
      else map_option (\<lambda>(a, b). (c # a, b)) (split_once d cs))"

definition rsplit_once :: "char \<Rightarrow> string \<Rightarrow> (string \<times> string) option" where
  "rsplit_once d s = map_option (\<lambda>(a, b). (rev b, rev a)) (split_once d (rev s))"

definition strip_prefix_char :: "char \<Rightarrow> string \<Rightarrow> string option" where
  "strip_prefix_char c s = (case s of [] \<Rightarrow> None | d # r \<Rightarrow> if d = c then Some r else None)"

definition strip_suffix_char :: "char \<Rightarrow> string \<Rightarrow> string option" where
  "strip_suffix_char c s = map_option rev (strip_prefix_char c (rev s))"

definition trim_end_matches_char :: "char \<Rightarrow> string \<Rightarrow> string" where
  "trim_end_matches_char c s = rev (dropWhile (\<lambda>d. d = c) (rev s))"

definition starts_with_char :: "char \<Rightarrow> string \<Rightarrow> bool" where
  "starts_with_char c s = (case s of [] \<Rightarrow> False | d # _ \<Rightarrow> d = c)"

definition ends_with_char :: "char \<Rightarrow> string \<Rightarrow> bool" where
  "ends_with_char c s = starts_with_char c (rev s)"

definition to_ascii_lowercase :: "char \<Rightarrow> char" where
  "to_ascii_lowercase c =
     (let n = (of_char c :: nat) in if 65 \<le> n \<and> n \<le> 90 then char_of (n + 32) else c)"

definition eq_ignore_ascii_case :: "string \<Rightarrow> string \<Rightarrow> bool" where
  "eq_ignore_ascii_case a b \<longleftrightarrow> map to_ascii_lowercase a = map to_ascii_lowercase b"

section \<open>Printing and parsing integers\<close>

definition digit_char :: "nat \<Rightarrow> char" where
  "digit_char d = char_of (if d < 10 then 48 + d else 87 + d)"

fun show_radix :: "nat \<Rightarrow> nat \<Rightarrow> string" where
  "show_radix r n =
     (if r \<le> 1 \<or> n < r then [digit_char n]
      else show_radix r (n div r) @ [digit_char (n mod r)])"

declare show_radix.simps [simp del]

abbreviation show_nat :: "nat \<Rightarrow> string" where
  "show_nat \<equiv> show_radix 10"

abbreviation show_hex :: "nat \<Rightarrow> string" where
  "show_hex \<equiv> show_radix 16"

text \<open>\<open>char::to_digit\<close> for radix 10 and 16: both letter cases are digits.\<close>

definition to_digit :: "nat \<Rightarrow> char \<Rightarrow> nat option" where
  "to_digit r c =
     (let n = (of_char c :: nat);
          d = (if 48 \<le> n \<and> n \<le> 57 then n - 48
               else if 97 \<le> n \<and> n \<le> 122 then n - 87
               else if 65 \<le> n \<and> n \<le> 90 then n - 55
               else r)
      in if d < r then Some d else None)"

datatype int_error = EmptyInt | InvalidDigit | PosOverflow

fun parse_digits :: "nat \<Rightarrow> nat \<Rightarrow> string \<Rightarrow> int_error + nat" where
  "parse_digits bound acc [] = Inr acc"
| "parse_digits bound acc (c # cs) =
     (case to_digit 10 c of
        None \<Rightarrow> Inl InvalidDigit
      | Some d \<Rightarrow> if bound \<le> acc * 10 + d then Inl PosOverflow
                  else parse_digits bound (acc * 10 + d) cs)"

text \<open>\<open>str::parse::<u16>\<close>: a leading \<open>+\<close> is accepted when a digit string follows.\<close>

definition parse_u16 :: "string \<Rightarrow> int_error + u16" where
  "parse_u16 s =
     (case s of
        [] \<Rightarrow> Inl EmptyInt
      | c # cs \<Rightarrow>
          if cs = [] \<and> (c = CHR ''+'' \<or> c = CHR ''-'') then Inl InvalidDigit
          else map_sum id word_of_nat
                 (parse_digits 65536 0 (if c = CHR ''+'' then cs else s)))"

section \<open>Facts about the string functions\<close>

lemma bytes_of_str_of [simp]: "bytes_of (str_of bs) = bs"
  by (induction bs) (simp_all add: bytes_of_def str_of_def)

lemma str_of_bytes_of [simp]: "str_of (bytes_of s) = s"
  by (induction s) (simp_all add: bytes_of_def str_of_def)

lemma bytes_of_inject [simp]: "bytes_of a = bytes_of b \<longleftrightarrow> a = b"
  by (metis str_of_bytes_of)

lemma str_of_inject [simp]: "str_of a = str_of b \<longleftrightarrow> a = b"
  by (metis bytes_of_str_of)

lemma length_str_of [simp]: "length (str_of bs) = length bs"
  by (simp add: str_of_def)

lemma length_bytes_of [simp]: "length (bytes_of s) = length s"
  by (simp add: bytes_of_def)

lemma bytes_of_append [simp]: "bytes_of (a @ b) = bytes_of a @ bytes_of b"
  by (simp add: bytes_of_def)

text \<open>A well-formed character is recognised whatever follows it.\<close>

lemma utf8_next_append:
  "fst (utf8_next xs) \<Longrightarrow> xs \<noteq> [] \<Longrightarrow> utf8_next (xs @ ys) = utf8_next xs"
  by (cases xs) (auto split: list.splits if_splits)

lemma utf8_next_take:
  "fst (utf8_next bs) \<Longrightarrow> utf8_next (take (snd (utf8_next bs)) bs) = utf8_next bs"
  by (cases bs) (auto split: list.splits if_splits)

lemma utf8_next_le: "snd (utf8_next bs) \<le> length bs"
  by (cases bs) (auto split: list.splits if_splits)

lemma valid_utf8_Nil [simp]: "valid_utf8 []"
  by (simp add: valid_utf8.simps)

lemma valid_utf8_char:
  assumes "fst (utf8_next bs)"
  shows "valid_utf8 (take (snd (utf8_next bs)) bs @ rest) = valid_utf8 rest"
proof (cases "bs = []")
  case True
  then show ?thesis by simp
next
  case False
  let ?n = "snd (utf8_next bs)" and ?c = "take (snd (utf8_next bs)) bs"
  have len: "length ?c = ?n" and ne: "?c \<noteq> []"
    using utf8_next_le [of bs] utf8_next_pos [OF False] False by auto
  have nxt: "utf8_next (?c @ rest) = utf8_next bs"
    using utf8_next_append [of ?c rest] utf8_next_take [OF assms] assms ne by simp
  have "valid_utf8 (?c @ rest) \<longleftrightarrow> fst (utf8_next bs) \<and> valid_utf8 (drop ?n (?c @ rest))"
    using ne by (subst valid_utf8.simps) (simp add: nxt)
  then show ?thesis using assms len by simp
qed

lemma utf8_replacement: "utf8_next ([0xEF, 0xBF, 0xBD] :: bytes) = (True, 3)"
  by (simp add: utf8_width_def second_ok_def is_cont_def)

text \<open>Lossy decoding always yields well-formed UTF-8, and leaves well-formed input alone.\<close>

lemma utf8_lossy_valid: "valid_utf8 (utf8_lossy bs)"
proof (induction bs rule: utf8_lossy.induct)
  case (1 bs)
  show ?case
  proof (cases "bs = []")
    case True
    then show ?thesis by (simp add: utf8_lossy.simps)
  next
    case False
    then have IH: "valid_utf8 (utf8_lossy (drop (snd (utf8_next bs)) bs))" by (rule 1)
    show ?thesis
    proof (cases "fst (utf8_next bs)")
      case True
      then show ?thesis
        using IH False by (subst utf8_lossy.simps) (simp add: valid_utf8_char)
    next
      case bad: False
      show ?thesis
        using IH False bad valid_utf8_char [of "[0xEF, 0xBF, 0xBD]"] utf8_replacement
        by (subst utf8_lossy.simps) simp
    qed
  qed
qed

lemma utf8_lossy_id: "valid_utf8 bs \<Longrightarrow> utf8_lossy bs = bs"
proof (induction bs rule: utf8_lossy.induct)
  case (1 bs)
  show ?case
  proof (cases "bs = []")
    case True
    then show ?thesis by (simp add: utf8_lossy.simps)
  next
    case False
    with "1.prems" have "fst (utf8_next bs)" and "valid_utf8 (drop (snd (utf8_next bs)) bs)"
      by (simp_all add: valid_utf8.simps [of bs])
    with 1 False show ?thesis by (simp add: utf8_lossy.simps [of bs])
  qed
qed

section \<open>Visible ASCII text\<close>

text \<open>Text of visible ASCII characters holds no white space, so trimming leaves it alone.\<close>

definition graphic :: "char \<Rightarrow> bool" where
  "graphic c \<longleftrightarrow> 33 \<le> (of_char c :: nat) \<and> (of_char c :: nat) \<le> 126"

lemma ws_not_graphic:
  "list_all (\<lambda>w. w \<noteq> [] \<and> \<not> graphic (hd w)) ws_encodings"
  "list_all (\<lambda>w. w \<noteq> [] \<and> \<not> graphic (hd w)) (map rev ws_encodings)"
  by code_simp+

lemma strip_count_no_head:
  assumes "list_all (\<lambda>w. w \<noteq> [] \<and> \<not> graphic (hd w)) ws" "s = [] \<or> graphic (hd s)"
  shows "strip_count ws s = 0"
  using assms(1)
proof (induction ws)
  case (Cons w ws)
  moreover have "take (length w) s \<noteq> w"
    using Cons.prems assms(2) by (cases s; cases w) auto
  ultimately show ?case by simp
qed simp

lemma trim_graphic_ends:
  assumes "s = [] \<or> graphic (hd s) \<and> graphic (last s)"
  shows "trim s = s"
proof -
  have "strip_count ws_encodings s = 0"
    using assms by (intro strip_count_no_head ws_not_graphic) auto
  then have 1: "trim_start s = s"
    by (simp add: trim_start_def strip_start.simps [of _ s])
  have "strip_count (map rev ws_encodings) (rev s) = 0"
    using assms by (intro strip_count_no_head ws_not_graphic) (auto simp: hd_rev)
  then have "trim_end s = s"
    by (simp add: trim_end_def strip_start.simps [of _ "rev s"])
  with 1 show ?thesis by (simp add: trim_def)
qed

lemma trim_graphic: "\<forall>c \<in> set s. graphic c \<Longrightarrow> trim s = s"
  by (rule trim_graphic_ends) (cases s; simp)

lemma split_once_append [simp]: "d \<notin> set a \<Longrightarrow> split_once d (a @ d # b) = Some (a, b)"
  by (induction a) auto

lemma split_once_SomeD: "split_once d s = Some (a, b) \<Longrightarrow> s = a @ d # b \<and> d \<notin> set a"
  by (induction s arbitrary: a b) (auto split: if_splits)

lemma split_on_none [simp]: "\<forall>c \<in> set s. \<not> p c \<Longrightarrow> split_on p s = [s]"
  by (induction s) simp_all

lemma split_on_append_sep:
  "\<forall>c \<in> set a. \<not> p c \<Longrightarrow> p d \<Longrightarrow> split_on p (a @ d # s) = a # split_on p s"
  by (induction a) simp_all

lemma set_split_on: "g \<in> set (split_on p s) \<Longrightarrow> set g \<subseteq> {c \<in> set s. \<not> p c}"
proof (induction s arbitrary: g)
  case (Cons c cs)
  then show ?case by (cases "split_on p cs") (fastforce split: if_splits)+
qed simp

lemma set_strip_start: "set (strip_start ws s) \<subseteq> set s"
proof (induction ws s rule: strip_start.induct)
  case (1 ws s)
  then show ?case by (auto simp: strip_start.simps [of ws s] dest: in_set_dropD)
qed

lemma set_trim: "set (trim s) \<subseteq> set s"
  using set_strip_start [of "map rev ws_encodings" "rev (trim_start s)"] set_strip_start [of ws_encodings s]
  by (auto simp: trim_def trim_end_def trim_start_def)

lemma trim_Nil [simp]: "trim [] = []"
  by (rule trim_graphic_ends) simp

end
