(* ===== verification/Std_Net.thy ===== *)
theory Std_Net
  imports Rust_Str "HOL-Library.Monad_Syntax"
begin

text \<open>
  The IP address types of Rust's \<open>std::net\<close>: their text forms (\<open>Display\<close>), the recursive
  descent parser behind \<open>FromStr\<close>, and the classification predicates the program calls.
  An \<open>Ipv4Addr\<close> is its 32-bit value and an \<open>Ipv6Addr\<close> its 128-bit value. A parser takes the
  remaining input and returns a value and the rest; a failing parser leaves the input where
  it was, as \<open>read_atomically\<close> does. The main lemmas are the round trips
  \<open>ipv4_from_to_string\<close> and \<open>ipv6_from_to_string\<close>.
\<close>

datatype ip_addr = V4 u32 | V6 u128

text \<open>The IPv6 form has flow information and a scope besides address and port.\<close>

datatype socket_addr = SocketV4 u32 u16 | SocketV6 u128 u16 u32 u32

fun sa_ip :: "socket_addr \<Rightarrow> ip_addr" where
  "sa_ip (SocketV4 a p) = V4 a"
| "sa_ip (SocketV6 a p flow scope) = V6 a"

fun sa_port :: "socket_addr \<Rightarrow> u16" where
  "sa_port (SocketV4 a p) = p"
| "sa_port (SocketV6 a p flow scope) = p"

fun sa_is_ipv6 :: "socket_addr \<Rightarrow> bool" where
  "sa_is_ipv6 (SocketV4 a p) = False"
| "sa_is_ipv6 (SocketV6 a p flow scope) = True"

section \<open>Digits in a base\<close>

primrec nat_digits :: "nat \<Rightarrow> nat \<Rightarrow> nat \<Rightarrow> nat list" where
  "nat_digits b 0 n = []"
| "nat_digits b (Suc k) n = nat_digits b k (n div b) @ [n mod b]"

definition digits_nat :: "nat \<Rightarrow> nat list \<Rightarrow> nat" where
  "digits_nat b ds = foldl (\<lambda>a d. a * b + d) 0 ds"

definition octets :: "u32 \<Rightarrow> nat list" where
  "octets a = nat_digits 256 4 (unat a)"

definition segments :: "u128 \<Rightarrow> nat list" where
  "segments a = nat_digits 65536 8 (unat a)"

definition from_segments :: "nat list \<Rightarrow> u128" where
  "from_segments gs = word_of_nat (digits_nat 65536 gs)"

section \<open>Display\<close>

fun join :: "string \<Rightarrow> string list \<Rightarrow> string" where
  "join sep [] = []"
| "join sep [x] = x"
| "join sep (x # xs) = x @ sep @ join sep xs"

definition ipv4_to_string :: "u32 \<Rightarrow> string" where
  "ipv4_to_string a = join ''.'' (map show_nat (octets a))"

text \<open>The first longest run of zero segments, as (start, length).\<close>

fun zero_run :: "nat \<Rightarrow> nat \<times> nat \<Rightarrow> nat \<times> nat \<Rightarrow> nat list \<Rightarrow> nat \<times> nat" where
  "zero_run i cur longest [] = longest"
| "zero_run i cur longest (g # gs) =
     (if g = 0 then
        let cur' = (if snd cur = 0 then i else fst cur, Suc (snd cur));
            longest' = (if snd longest < snd cur' then cur' else longest)
        in zero_run (Suc i) cur' longest' gs
      else zero_run (Suc i) (0, 0) longest gs)"

definition fmt_subslice :: "nat list \<Rightarrow> string" where
  "fmt_subslice gs = join '':'' (map show_hex gs)"

definition is_ipv4_mapped :: "nat list \<Rightarrow> bool" where
  "is_ipv4_mapped gs \<longleftrightarrow> take 6 gs = [0, 0, 0, 0, 0, 0xffff]"

definition ipv6_to_string :: "u128 \<Rightarrow> string" where
  "ipv6_to_string a =
     (let gs = segments a in
      if is_ipv4_mapped gs
      then ''::ffff:'' @ ipv4_to_string (word_of_nat (digits_nat 65536 (drop 6 gs)))
      else let (start, len) = zero_run 0 (0, 0) (0, 0) gs in
        if 1 < len
        then fmt_subslice (take start gs) @ ''::'' @ fmt_subslice (drop (start + len) gs)
        else fmt_subslice gs)"

fun ip_to_string :: "ip_addr \<Rightarrow> string" where
  "ip_to_string (V4 a) = ipv4_to_string a"
| "ip_to_string (V6 a) = ipv6_to_string a"

section \<open>The parser\<close>

fun read_digits :: "nat \<Rightarrow> nat \<Rightarrow> nat option \<Rightarrow> nat \<Rightarrow> nat \<Rightarrow> string \<Rightarrow> (nat \<times> nat \<times> string) option" where
  "read_digits r bound mx cnt acc [] = Some (cnt, acc, [])"
| "read_digits r bound mx cnt acc (c # cs) =
     (case to_digit r c of
        None \<Rightarrow> Some (cnt, acc, c # cs)
      | Some d \<Rightarrow>
          if bound \<le> acc * r + d then None
          else if (case mx of None \<Rightarrow> False | Some m \<Rightarrow> m < Suc cnt) then None
          else read_digits r bound mx (Suc cnt) (acc * r + d) cs)"

definition read_number :: "nat \<Rightarrow> nat \<Rightarrow> nat option \<Rightarrow> bool \<Rightarrow> string \<Rightarrow> (nat \<times> string) option" where
  "read_number r bound mx allow_zero_prefix s =
     (case read_digits r bound mx 0 0 s of
        None \<Rightarrow> None
      | Some (cnt, n, rest) \<Rightarrow>
          if cnt = 0 then None
          else if \<not> allow_zero_prefix \<and> starts_with_char CHR ''0'' s \<and> 1 < cnt then None
          else Some (n, rest))"

definition read_given_char :: "char \<Rightarrow> string \<Rightarrow> string option" where
  "read_given_char c s = strip_prefix_char c s"

definition read_separator ::
    "char \<Rightarrow> nat \<Rightarrow> (string \<Rightarrow> ('a \<times> string) option) \<Rightarrow> string \<Rightarrow> ('a \<times> string) option" where
  "read_separator sep i inner s =
     (if 0 < i then Option.bind (read_given_char sep s) inner else inner s)"

definition read_octet :: "string \<Rightarrow> (nat \<times> string) option" where
  "read_octet = read_number 10 256 (Some 3) False"

definition read_ipv4_addr :: "string \<Rightarrow> (u32 \<times> string) option" where
  "read_ipv4_addr s = do {
     (a, s) \<leftarrow> read_separator CHR ''.'' 0 read_octet s;
     (b, s) \<leftarrow> read_separator CHR ''.'' 1 read_octet s;
     (c, s) \<leftarrow> read_separator CHR ''.'' 2 read_octet s;
     (d, s) \<leftarrow> read_separator CHR ''.'' 3 read_octet s;
     Some (word_of_nat (digits_nat 256 [a, b, c, d]), s) }"

definition read_group :: "string \<Rightarrow> (nat \<times> string) option" where
  "read_group = read_number 16 65536 (Some 4) True"

text \<open>
  \<open>read_groups k i s\<close> fills the last \<open>k\<close> slots of the array from index \<open>i\<close> on; it returns the
  groups read, whether they end with an embedded IPv4 address, and the rest.
\<close>

fun read_groups :: "nat \<Rightarrow> nat \<Rightarrow> string \<Rightarrow> nat list \<times> bool \<times> string" where
  "read_groups 0 i s = ([], False, s)"
| "read_groups (Suc k) i s =
     (case (if 0 < k then read_separator CHR '':'' i read_ipv4_addr s else None) of
        Some (v4, s') \<Rightarrow> (nat_digits 65536 2 (unat v4), True, s')
      | None \<Rightarrow>
          (case read_separator CHR '':'' i read_group s of
             None \<Rightarrow> ([], False, s)
           | Some (g, s') \<Rightarrow>
               let (gs, v4, s'') = read_groups k (Suc i) s' in (g # gs, v4, s'')))"

definition read_ipv6_addr :: "string \<Rightarrow> (u128 \<times> string) option" where
  "read_ipv6_addr s =
     (let (head, head_ipv4, s1) = read_groups 8 0 s in
      if length head = 8 then Some (from_segments head, s1)
      else if head_ipv4 then None
      else do {
        s2 \<leftarrow> read_given_char CHR '':'' s1;
        s3 \<leftarrow> read_given_char CHR '':'' s2;
        let (tail, _, s4) = read_groups (8 - (length head + 1)) 0 s3;
        Some (from_segments (head @ replicate (8 - length head - length tail) 0 @ tail), s4) })"

definition read_ip_addr :: "string \<Rightarrow> (ip_addr \<times> string) option" where
  "read_ip_addr s =
     (case read_ipv4_addr s of
        Some (a, r) \<Rightarrow> Some (V4 a, r)
      | None \<Rightarrow> map_option (\<lambda>(a, r). (V6 a, r)) (read_ipv6_addr s))"

definition parse_with :: "(string \<Rightarrow> ('a \<times> string) option) \<Rightarrow> string \<Rightarrow> 'a option" where
  "parse_with p s = (case p s of Some (a, []) \<Rightarrow> Some a | _ \<Rightarrow> None)"

definition ipv4_from_str :: "string \<Rightarrow> u32 option" where
  "ipv4_from_str s = (if 15 < length s then None else parse_with read_ipv4_addr s)"

definition ipv6_from_str :: "string \<Rightarrow> u128 option" where
  "ipv6_from_str s = parse_with read_ipv6_addr s"

definition ip_from_str :: "string \<Rightarrow> ip_addr option" where
  "ip_from_str s = parse_with read_ip_addr s"

definition read_port :: "string \<Rightarrow> (u16 \<times> string) option" where
  "read_port s = do {
     s \<leftarrow> read_given_char CHR '':'' s;
     (p, s) \<leftarrow> read_number 10 65536 None True s;
     Some (word_of_nat p, s) }"

definition read_scope_id :: "string \<Rightarrow> (nat \<times> string) option" where
  "read_scope_id s = do {
     s \<leftarrow> read_given_char CHR ''%'' s;
     read_number 10 (2 ^ 32) None True s }"

definition read_socket_addr_v4 :: "string \<Rightarrow> (socket_addr \<times> string) option" where
  "read_socket_addr_v4 s = do {
     (a, s) \<leftarrow> read_ipv4_addr s;
     (p, s) \<leftarrow> read_port s;
     Some (SocketV4 a p, s) }"

definition read_socket_addr_v6 :: "string \<Rightarrow> (socket_addr \<times> string) option" where
  "read_socket_addr_v6 s = do {
     s \<leftarrow> read_given_char CHR ''['' s;
     (a, s) \<leftarrow> read_ipv6_addr s;
     (scope, s) \<leftarrow> Some (case read_scope_id s of None \<Rightarrow> (0, s) | Some r \<Rightarrow> r);
     s \<leftarrow> read_given_char CHR '']'' s;
     (p, s) \<leftarrow> read_port s;
     Some (SocketV6 a p 0 (word_of_nat scope), s) }"

definition socket_addr_from_str :: "string \<Rightarrow> socket_addr option" where
  "socket_addr_from_str s =
     parse_with (\<lambda>s. case read_socket_addr_v4 s of
        Some r \<Rightarrow> Some r | None \<Rightarrow> read_socket_addr_v6 s) s"

section \<open>Classification\<close>

fun ip_is_unspecified :: "ip_addr \<Rightarrow> bool" where
  "ip_is_unspecified (V4 a) = (a = 0)"
| "ip_is_unspecified (V6 a) = (a = 0)"

definition ipv4_is_loopback :: "u32 \<Rightarrow> bool" where
  "ipv4_is_loopback a \<longleftrightarrow> octets a ! 0 = 127"

definition ipv6_is_loopback :: "u128 \<Rightarrow> bool" where
  "ipv6_is_loopback a \<longleftrightarrow> a = 1"

definition ipv6_is_unspecified :: "u128 \<Rightarrow> bool" where
  "ipv6_is_unspecified a \<longleftrightarrow> a = 0"

definition ipv6_is_multicast :: "u128 \<Rightarrow> bool" where
  "ipv6_is_multicast a \<longleftrightarrow> (segments a ! 0) AND 0xff00 = 0xff00"

definition ipv6_is_unique_local :: "u128 \<Rightarrow> bool" where
  "ipv6_is_unique_local a \<longleftrightarrow> (segments a ! 0) AND 0xfe00 = 0xfc00"

definition ipv6_is_unicast_link_local :: "u128 \<Rightarrow> bool" where
  "ipv6_is_unicast_link_local a \<longleftrightarrow> (segments a ! 0) AND 0xffc0 = 0xfe80"

section \<open>Round trips\<close>

lemma length_nat_digits [simp]: "length (nat_digits b k n) = k"
  by (induction k arbitrary: n) simp_all

lemma digits_nat_snoc [simp]: "digits_nat b (ds @ [d]) = digits_nat b ds * b + d"
  by (simp add: digits_nat_def)

lemma digits_nat_nat_digits: "digits_nat b (nat_digits b k n) = n mod b ^ k"
proof (induction k arbitrary: n)
  case 0
  then show ?case by (simp add: digits_nat_def)
next
  case (Suc k)
  have "n mod b ^ Suc k = b * (n div b mod b ^ k) + n mod b"
    using mod_mult2_eq [of n b "b ^ k"] by simp
  then show ?case by (simp add: Suc.IH)
qed

lemma nat_digits_less: "0 < b \<Longrightarrow> d \<in> set (nat_digits b k n) \<Longrightarrow> d < b"
  by (induction k arbitrary: n) auto

lemma from_segments_segments [simp]: "from_segments (segments a) = a"
proof -
  have "unat a < 65536 ^ 8" using unsigned_less [of a, where 'a = nat] by simp
  then show ?thesis by (simp add: from_segments_def segments_def digits_nat_nat_digits)
qed

lemma length_segments [simp]: "length (segments a) = 8"
  by (simp add: segments_def)

lemma segments_less: "g \<in> set (segments a) \<Longrightarrow> g < 65536"
  unfolding segments_def by (rule nat_digits_less) simp_all

lemma of_octets [simp]: "word_of_nat (digits_nat 256 (octets a)) = (a :: u32)"
proof -
  have "unat a < 256 ^ 4" using unsigned_less [of a, where 'a = nat] by simp
  then show ?thesis by (simp add: octets_def digits_nat_nat_digits)
qed

lemma octets_less: "d \<in> set (octets a) \<Longrightarrow> d < 256"
  unfolding octets_def by (rule nat_digits_less) simp_all

text \<open>Digits of a printed number are read back one by one.\<close>

lemma to_digit_digit_char [simp]:
  "d < r \<Longrightarrow> r \<le> 16 \<Longrightarrow> to_digit r (digit_char d) = Some d"
  by (auto simp: to_digit_def digit_char_def Let_def)

lemma show_radix_ne [simp]: "show_radix r n \<noteq> []"
  by (subst show_radix.simps) simp

lemma length_show_radix:
  "2 \<le> r \<Longrightarrow> n < r ^ k \<Longrightarrow> 0 < k \<Longrightarrow> length (show_radix r n) \<le> k"
proof (induction k arbitrary: n)
  case 0
  then show ?case by simp
next
  case (Suc k)
  show ?case
  proof (cases "n < r")
    case True
    then show ?thesis by (simp add: show_radix.simps [of r n])
  next
    case False
    with Suc.prems have "0 < k" by (cases k) simp_all
    moreover have "n div r < r ^ k" using Suc.prems by (simp add: less_mult_imp_div_less mult.commute)
    ultimately have "length (show_radix r (n div r)) \<le> k" using Suc by simp
    with False Suc.prems(1) show ?thesis by (simp add: show_radix.simps [of r n])
  qed
qed

lemma read_digits_show:
  assumes "2 \<le> r" "r \<le> 16"
  shows "acc * r ^ length (show_radix r n) + n < bound
    \<Longrightarrow> (\<forall>m. mx = Some m \<longrightarrow> cnt + length (show_radix r n) \<le> m)
    \<Longrightarrow> read_digits r bound mx cnt acc (show_radix r n @ rest)
      = read_digits r bound mx (cnt + length (show_radix r n))
          (acc * r ^ length (show_radix r n) + n) rest"
proof (induction n arbitrary: acc cnt rest rule: less_induct)
  case (less n)
  show ?case
  proof (cases "n < r")
    case True
    then show ?thesis
      using less.prems assms by (auto simp: show_radix.simps [of r n] split: option.splits)
  next
    case False
    let ?m = "n div r" and ?d = "n mod r"
    let ?l = "length (show_radix r ?m)"
    have sh: "show_radix r n = show_radix r ?m @ [digit_char ?d]"
      using False assms by (simp add: show_radix.simps [of r n])
    have ext: "acc * r ^ Suc ?l + n = (acc * r ^ ?l + ?m) * r + ?d"
      by (simp add: algebra_simps)
    have tot: "(acc * r ^ ?l + ?m) * r + ?d < bound"
      using less.prems(1) unfolding sh by (simp add: ext del: power_Suc)
    have drop_digit: "x < bound" if "x * r + d < bound" for x d
    proof -
      have "x * 1 \<le> x * r" using assms by (intro mult_le_mono2) simp
      then show ?thesis using that by linarith
    qed
    have b: "acc * r ^ ?l + ?m < bound" using tot by (rule drop_digit)
    have IH: "read_digits r bound mx cnt acc (show_radix r ?m @ digit_char ?d # rest)
        = read_digits r bound mx (cnt + ?l) (acc * r ^ ?l + ?m) (digit_char ?d # rest)"
      using less.prems(2) False assms b by (intro less.IH) (auto simp: sh)
    from tot show ?thesis
      using IH less.prems(2) assms ext
      by (auto simp: sh split: option.splits simp del: power_Suc)
  qed
qed

lemma show_radix_leading_zero:
  "2 \<le> r \<Longrightarrow> r \<le> 16 \<Longrightarrow> 0 < n \<Longrightarrow> hd (show_radix r n) \<noteq> CHR ''0''"
proof (induction n rule: less_induct)
  case (less n)
  have nz: "digit_char d \<noteq> CHR ''0''" if "0 < d" "d < 16" for d
  proof
    assume "digit_char d = CHR ''0''"
    then have "to_digit 16 (digit_char d) = Some 0" by (simp add: to_digit_def)
    with that show False by simp
  qed
  show ?case
  proof (cases "n < r")
    case True
    with less.prems nz show ?thesis by (simp add: show_radix.simps [of r n])
  next
    case False
    have "hd (show_radix r (n div r)) \<noteq> CHR ''0''"
      using less False by (intro less.IH) (auto simp: div_greater_zero_iff)
    with False less.prems(1) show ?thesis by (simp add: show_radix.simps [of r n])
  qed
qed

text \<open>Input that does not continue a number in base \<open>r\<close>.\<close>

definition no_digit :: "nat \<Rightarrow> string \<Rightarrow> bool" where
  "no_digit r s \<longleftrightarrow> (case s of [] \<Rightarrow> True | c # _ \<Rightarrow> to_digit r c = None)"

lemma read_digits_stop: "no_digit r s \<Longrightarrow> read_digits r bound mx cnt acc s = Some (cnt, acc, s)"
  by (cases s) (simp_all add: no_digit_def)

lemma read_number_show:
  assumes r: "2 \<le> r" "r \<le> 16" and n: "n < bound" and stop: "no_digit r rest"
    and len: "\<And>m. mx = Some m \<Longrightarrow> length (show_radix r n) \<le> m"
  shows "read_number r bound mx az (show_radix r n @ rest) = Some (n, rest)"
proof -
  have "read_digits r bound mx 0 0 (show_radix r n @ rest)
      = Some (length (show_radix r n), n, rest)"
    using read_digits_show [OF r, of 0 n bound mx 0 rest] n len read_digits_stop [OF stop] by simp
  moreover have "\<not> (starts_with_char CHR ''0'' (show_radix r n @ rest) \<and> 1 < length (show_radix r n))"
  proof (cases "n = 0")
    case True
    then show ?thesis using r by (simp add: show_radix.simps [of r 0])
  next
    case False
    with show_radix_leading_zero [OF r, of n] show ?thesis
      by (cases "show_radix r n") (simp_all add: starts_with_char_def)
  qed
  ultimately show ?thesis by (auto simp: read_number_def)
qed

lemma no_digit_simps [simp]:
  "no_digit r []"
  "r \<le> 16 \<Longrightarrow> no_digit r (CHR ''.'' # s)"
  "r \<le> 16 \<Longrightarrow> no_digit r (CHR '':'' # s)"
  "r \<le> 16 \<Longrightarrow> no_digit r (CHR '']'' # s)"
  by (simp_all add: no_digit_def to_digit_def)

lemma read_octet_show: "n < 256 \<Longrightarrow> no_digit 10 rest \<Longrightarrow> read_octet (show_nat n @ rest) = Some (n, rest)"
  unfolding read_octet_def by (rule read_number_show) (auto intro: length_show_radix)

lemma read_group_show: "n < 65536 \<Longrightarrow> no_digit 16 rest \<Longrightarrow> read_group (show_hex n @ rest) = Some (n, rest)"
  unfolding read_group_def by (rule read_number_show) (auto intro: length_show_radix)

lemma length_eq_4E:
  assumes "length xs = 4" obtains a b c d where "xs = [a, b, c, d]"
  using assms by (auto simp: numeral_eq_Suc length_Suc_conv)

lemma read_ipv4_addr_show:
  assumes "no_digit 10 rest"
  shows "read_ipv4_addr (ipv4_to_string x @ rest) = Some (x, rest)"
proof -
  have "length (octets x) = 4" by (simp add: octets_def)
  then obtain a b c d where o4: "octets x = [a, b, c, d]" by (rule length_eq_4E)
  then have lt: "a < 256" "b < 256" "c < 256" "d < 256" using octets_less [of _ x] by auto
  have "word_of_nat (digits_nat 256 [a, b, c, d]) = x" using of_octets [of x] by (simp only: o4)
  then show ?thesis
    using assms lt
    by (simp add: read_ipv4_addr_def ipv4_to_string_def o4 read_octet_show
        read_separator_def read_given_char_def strip_prefix_char_def)
qed

lemma ipv4_from_to_string [simp]: "ipv4_from_str (ipv4_to_string x) = Some x"
proof -
  have "length (octets x) = 4" by (simp add: octets_def)
  then obtain a b c d where o4: "octets x = [a, b, c, d]" by (rule length_eq_4E)
  have "\<And>n. n < 256 \<Longrightarrow> length (show_nat n) \<le> 3"
    by (rule length_show_radix) auto
  then have "length (show_nat a) \<le> 3" "length (show_nat b) \<le> 3" "length (show_nat c) \<le> 3"
    "length (show_nat d) \<le> 3"
    using octets_less [of _ x] by (auto simp: o4)
  then have "length (ipv4_to_string x) \<le> 15" by (simp add: ipv4_to_string_def o4)
  then show ?thesis
    using read_ipv4_addr_show [of "[]" x] by (simp add: ipv4_from_str_def parse_with_def)
qed

lemma read_digits_rest: "read_digits r bound mx cnt acc s = Some (c, n, rest) \<Longrightarrow> set rest \<subseteq> set s"
  by (induction r bound mx cnt acc s rule: read_digits.induct)
    (fastforce split: option.splits if_splits)+

lemma read_number_rest: "read_number r bound mx az s = Some (n, rest) \<Longrightarrow> set rest \<subseteq> set s"
  by (auto simp: read_number_def dest: read_digits_rest [THEN subsetD] split: option.splits if_splits)

lemma read_given_char_absent: "c \<notin> set s \<Longrightarrow> read_given_char c s = None"
  by (cases s) (auto simp: read_given_char_def strip_prefix_char_def)

lemma read_ipv4_addr_no_dot:
  assumes "CHR ''.'' \<notin> set s"
  shows "read_ipv4_addr s = None"
proof (cases "read_octet s")
  case None
  then show ?thesis by (simp add: read_ipv4_addr_def read_separator_def)
next
  case (Some r)
  then obtain n s' where r: "read_octet s = Some (n, s')" by (cases r) simp
  then have "set s' \<subseteq> set s" unfolding read_octet_def by (rule read_number_rest)
  with assms have "read_given_char CHR ''.'' s' = None" by (intro read_given_char_absent) auto
  with r show ?thesis by (simp add: read_ipv4_addr_def read_separator_def)
qed

lemma read_number_no_digit: "no_digit r s \<Longrightarrow> read_number r bound mx az s = None"
  by (simp add: read_number_def read_digits_stop)

lemma read_ipv4_addr_no_digit: "no_digit 10 s \<Longrightarrow> read_ipv4_addr s = None"
  by (simp add: read_ipv4_addr_def read_octet_def read_separator_def read_number_no_digit)

lemma set_show_radix:
  "2 \<le> r \<Longrightarrow> r \<le> 16 \<Longrightarrow> c \<in> set (show_radix r n) \<Longrightarrow> \<exists>d < 16. c = digit_char d"
proof (induction n rule: less_induct)
  case (less n)
  show ?case
  proof (cases "n < r")
    case True
    with less.prems show ?thesis by (intro exI [of _ n]) (simp add: show_radix.simps [of r n])
  next
    case False
    then have "c = digit_char (n mod r) \<or> c \<in> set (show_radix r (n div r))"
      using less.prems by (auto simp: show_radix.simps [of r n])
    moreover have "n mod r < 16" using less.prems by (meson mod_less_divisor less_le_trans zero_less_numeral)
    moreover have "n div r < n" using False less.prems by simp
    ultimately show ?thesis using less.IH less.prems(1,2) by blast
  qed
qed

lemma digit_char_not_sep: "d < 16 \<Longrightarrow> digit_char d \<noteq> CHR ''.'' \<and> digit_char d \<noteq> CHR '':''"
proof -
  assume "d < 16"
  then have "to_digit 16 (digit_char d) = Some d" by simp
  moreover have "to_digit 16 CHR ''.'' = None" "to_digit 16 CHR '':'' = None"
    by (simp_all add: to_digit_def)
  ultimately show ?thesis by (metis option.distinct(1))
qed

lemma show_hex_no_dot: "CHR ''.'' \<notin> set (show_hex n)"
proof
  assume "CHR ''.'' \<in> set (show_hex n)"
  then obtain d where "d < 16" and "CHR ''.'' = digit_char d"
    using set_show_radix [of 16 "CHR ''.''" n] by auto
  then show False using digit_char_not_sep [of d] by simp
qed

text \<open>Groups after the first one, each behind its separator.\<close>

definition colon_groups :: "nat list \<Rightarrow> string" where
  "colon_groups gs = concat (map (\<lambda>g. CHR '':'' # show_hex g) gs)"

lemma fmt_subslice_Cons: "fmt_subslice (g # gs) = show_hex g @ colon_groups gs"
  unfolding fmt_subslice_def colon_groups_def by (induction gs arbitrary: g) simp_all

lemma fmt_subslice_Nil [simp]: "fmt_subslice [] = []"
  by (simp add: fmt_subslice_def)

lemma colon_groups_no_dot: "CHR ''.'' \<notin> set (colon_groups gs)"
  by (induction gs) (simp_all add: colon_groups_def show_hex_no_dot)

lemma fmt_subslice_no_dot: "CHR ''.'' \<notin> set (fmt_subslice gs)"
  by (cases gs) (simp_all add: fmt_subslice_Cons show_hex_no_dot colon_groups_no_dot)

text \<open>Where the groups of one half end: at the end of the text, at the double colon or at the bracket
  around the address.\<close>

definition ends_groups :: "string \<Rightarrow> bool" where
  "ends_groups s \<longleftrightarrow> CHR ''.'' \<notin> set s \<and> (s = [] \<or> take 2 s = ''::'' \<or> take 1 s = '']'')"

lemma ends_groups_cases:
  assumes "ends_groups s"
  obtains "s = []" | r where "s = CHR '':'' # CHR '':'' # r" | r where "s = CHR '']'' # r"
proof -
  from assms consider "s = []" | "take 2 s = ''::''" | "take 1 s = '']''" by (auto simp: ends_groups_def)
  then show ?thesis
  proof cases
    case 1
    then show ?thesis by (rule that(1))
  next
    case 2
    then have "s = CHR '':'' # CHR '':'' # drop 2 s" by (metis append_take_drop_id append_Cons append_Nil)
    then show ?thesis by (rule that(2))
  next
    case 3
    then have "s = CHR '']'' # drop 1 s" by (metis append_take_drop_id append_Cons append_Nil)
    then show ?thesis by (rule that(3))
  qed
qed

definition ends_addr :: "string \<Rightarrow> bool" where
  "ends_addr s \<longleftrightarrow> CHR ''.'' \<notin> set s \<and> (s = [] \<or> take 1 s = '']'')"

lemma ends_addr_groups: "ends_addr s \<Longrightarrow> ends_groups s"
  by (auto simp: ends_addr_def ends_groups_def)

lemma ends_addr_no_digit: "ends_addr s \<Longrightarrow> r \<le> 16 \<Longrightarrow> no_digit r s"
  by (cases s) (auto simp: ends_addr_def)

lemma read_groups_end:
  assumes "ends_groups s"
  shows "read_groups k i s = ([], False, s)"
proof -
  have v4: "read_separator CHR '':'' i read_ipv4_addr s = None"
    and grp: "read_separator CHR '':'' i read_group s = None"
    using assms
    by (auto elim!: ends_groups_cases simp: read_separator_def read_given_char_def read_group_def
        strip_prefix_char_def read_ipv4_addr_no_digit read_number_no_digit)
  show ?thesis by (cases k) (simp_all add: v4 grp)
qed

lemma read_groups_colon:
  assumes "\<forall>g \<in> set gs. g < 65536" "length gs \<le> k" "0 < i" "ends_groups rest"
  shows "read_groups k i (colon_groups gs @ rest) = (gs, False, rest)"
  using assms
proof (induction gs arbitrary: k i)
  case Nil
  then show ?case by (simp add: colon_groups_def read_groups_end)
next
  case (Cons g gs)
  then obtain k' where k: "k = Suc k'" by (cases k) auto
  have cg: "colon_groups (g # gs) @ rest = CHR '':'' # show_hex g @ colon_groups gs @ rest"
    by (simp add: colon_groups_def)
  have nd: "CHR ''.'' \<notin> set (show_hex g @ colon_groups gs @ rest)"
    using Cons.prems(4) by (simp add: show_hex_no_dot colon_groups_no_dot ends_groups_def)
  have stop: "no_digit 16 (colon_groups gs @ rest)"
    using Cons.prems(4) by (cases gs) (auto simp: colon_groups_def elim!: ends_groups_cases)
  have IH: "read_groups k' (Suc i) (colon_groups gs @ rest) = (gs, False, rest)"
    using Cons k by simp
  have grp: "read_group (show_hex g @ colon_groups gs @ rest) = Some (g, colon_groups gs @ rest)"
    using Cons.prems(1) stop by (intro read_group_show) auto
  have none: "(if 0 < k' then read_separator CHR '':'' i read_ipv4_addr
      (colon_groups (g # gs) @ rest) else None) = None"
    unfolding cg using Cons.prems(3)
    by (simp add: read_separator_def read_given_char_def strip_prefix_char_def
        read_ipv4_addr_no_dot [OF nd])
  have one: "read_separator CHR '':'' i read_group (colon_groups (g # gs) @ rest)
      = Some (g, colon_groups gs @ rest)"
    unfolding cg using Cons.prems(3)
    by (simp add: read_separator_def read_given_char_def strip_prefix_char_def grp)
  show ?case unfolding k read_groups.simps none one by (simp add: IH)
qed

lemma read_groups_fmt:
  assumes "\<forall>g \<in> set gs. g < 65536" "length gs \<le> k" "ends_groups rest"
  shows "read_groups k 0 (fmt_subslice gs @ rest) = (gs, False, rest)"
proof (cases gs)
  case Nil
  then show ?thesis using assms by (simp add: read_groups_end)
next
  case (Cons g hs)
  with assms obtain k' where k: "k = Suc k'" by (cases k) auto
  have nd: "CHR ''.'' \<notin> set (show_hex g @ colon_groups hs @ rest)"
    using assms(3) by (simp add: show_hex_no_dot colon_groups_no_dot ends_groups_def)
  have stop: "no_digit 16 (colon_groups hs @ rest)"
    using assms(3) by (cases hs) (auto simp: colon_groups_def elim!: ends_groups_cases)
  have grp: "read_group (show_hex g @ colon_groups hs @ rest) = Some (g, colon_groups hs @ rest)"
    using assms(1) Cons stop by (intro read_group_show) auto
  have tl: "read_groups k' (Suc 0) (colon_groups hs @ rest) = (hs, False, rest)"
    using assms Cons k by (intro read_groups_colon) auto
  have none: "(if 0 < k' then read_separator CHR '':'' 0 read_ipv4_addr
      (show_hex g @ colon_groups hs @ rest) else None) = None"
    by (simp add: read_separator_def read_ipv4_addr_no_dot [OF nd])
  have one: "read_separator CHR '':'' 0 read_group (show_hex g @ colon_groups hs @ rest)
      = Some (g, colon_groups hs @ rest)"
    by (simp add: read_separator_def grp)
  show ?thesis
    unfolding Cons k fmt_subslice_Cons append_assoc read_groups.simps none one by (simp add: tl)
qed

text \<open>The run that \<open>zero_run\<close> reports lies inside the list and holds zeros only.\<close>

definition zeros_at :: "nat list \<Rightarrow> nat \<times> nat \<Rightarrow> bool" where
  "zeros_at gs r \<longleftrightarrow> fst r + snd r \<le> length gs \<and> (\<forall>j. fst r \<le> j \<and> j < fst r + snd r \<longrightarrow> gs ! j = 0)"

lemma zero_run_zeros:
  assumes "zeros_at (pre @ suf) longest" "zeros_at (pre @ suf) cur"
    "snd cur = 0 \<or> fst cur + snd cur = length pre"
  shows "zeros_at (pre @ suf) (zero_run (length pre) cur longest suf)"
  using assms
proof (induction suf arbitrary: pre cur longest)
  case Nil
  then show ?case by simp
next
  case (Cons g suf)
  have eq: "pre @ g # suf = (pre @ [g]) @ suf" and len: "Suc (length pre) = length (pre @ [g])"
    by simp_all
  show ?case
  proof (cases "g = 0")
    case True
    let ?cur = "(if snd cur = 0 then length pre else fst cur, Suc (snd cur))"
    have cur: "zeros_at (pre @ g # suf) ?cur"
      using Cons.prems(2,3) True
      by (auto simp: zeros_at_def nth_append less_Suc_eq split: if_splits)
    show ?thesis
      using Cons.IH [of "pre @ [g]" "if snd longest < snd ?cur then ?cur else longest" ?cur]
        Cons.prems cur True by (auto simp: Let_def)
  next
    case False
    then show ?thesis
      using Cons.IH [of "pre @ [g]" longest "(0, 0)"] Cons.prems by (simp add: zeros_at_def)
  qed
qed

lemma zeros_at_split:
  assumes "zeros_at gs (start, len)"
  shows "take start gs @ replicate len 0 @ drop (start + len) gs = gs"
proof -
  have "take len (drop start gs) = replicate len 0"
    using assms by (intro nth_equalityI) (auto simp: zeros_at_def)
  then show ?thesis
    by (metis add.commute append_take_drop_id drop_drop)
qed

lemma nat_digits_2 [simp]:
  "a < b \<Longrightarrow> c < b \<Longrightarrow> nat_digits b 2 (digits_nat b [a, c]) = [a, c]"
  by (simp add: numeral_2_eq_2 digits_nat_def)

lemma read_groups_at_colon: "read_groups k 0 (CHR '':'' # r) = ([], False, CHR '':'' # r)"
  by (cases k)
    (simp_all add: read_separator_def read_ipv4_addr_no_digit read_group_def read_number_no_digit)

lemma show_hex_ffff: "show_hex 0xffff = ''ffff''"
  by code_simp

lemma read_groups_mapped:
  assumes "ends_addr rest"
  shows "read_groups 7 0 (show_hex 0xffff @ CHR '':'' # ipv4_to_string v @ rest)
     = (0xffff # nat_digits 65536 2 (unat v), True, rest)"
proof -
  have "read_ipv4_addr (show_hex 0xffff @ CHR '':'' # ipv4_to_string v @ rest) = None"
    by (rule read_ipv4_addr_no_digit) (simp add: show_hex_ffff no_digit_def to_digit_def)
  moreover have "read_group (show_hex 0xffff @ CHR '':'' # ipv4_to_string v @ rest)
      = Some (0xffff, CHR '':'' # ipv4_to_string v @ rest)"
    by (rule read_group_show) simp_all
  moreover have "read_groups 6 (Suc 0) (CHR '':'' # ipv4_to_string v @ rest)
      = (nat_digits 65536 2 (unat v), True, rest)"
    using read_ipv4_addr_show [of rest v] ends_addr_no_digit [OF assms] read_groups.simps(2) [of 5 "Suc 0"]
    by (simp add: read_separator_def read_given_char_def strip_prefix_char_def
        del: read_groups.simps)
  ultimately show ?thesis
    using read_groups.simps(2) [of 6 0] by (simp add: read_separator_def del: read_groups.simps)
qed

lemma read_ipv6_addr_mapped:
  assumes "is_ipv4_mapped (segments x)" "ends_addr rest"
  shows "read_ipv6_addr (ipv6_to_string x @ rest) = Some (x, rest)"
proof -
  obtain a c where ac: "drop 6 (segments x) = [a, c]"
  proof -
    have "length (drop 6 (segments x)) = 2" by simp
    then show ?thesis using that by (metis One_nat_def Suc_1 length_0_conv length_Suc_conv)
  qed
  have lt: "a < 65536" "c < 65536"
    using segments_less [of _ x] ac by (metis in_set_dropD list.set_intros)+
  let ?v = "word_of_nat (digits_nat 65536 [a, c]) :: u32"
  have "digits_nat 65536 [a, c] < 2 ^ 32" using lt by (simp add: digits_nat_def)
  then have v: "unat ?v = digits_nat 65536 [a, c]" by (simp add: unat_of_nat)
  have segs: "segments x = [0, 0, 0, 0, 0, 0xffff, a, c]"
    using append_take_drop_id [of 6 "segments x"] assms(1) ac by (simp add: is_ipv4_mapped_def)
  have five: "replicate 5 (0 :: nat) = [0, 0, 0, 0, 0]" by (simp add: numeral_eq_Suc)
  have s: "ipv6_to_string x = CHR '':'' # CHR '':'' # show_hex 0xffff @ CHR '':'' # ipv4_to_string ?v"
    using assms(1) ac by (simp add: ipv6_to_string_def show_hex_ffff)
  have "read_groups 7 0 (show_hex 0xffff @ CHR '':'' # ipv4_to_string ?v @ rest) = ([0xffff, a, c], True, rest)"
    using read_groups_mapped [OF assms(2), of ?v] lt by (simp add: v)
  then show ?thesis
    using segs five from_segments_segments [of x]
    by (simp add: s read_groups_at_colon read_ipv6_addr_def read_given_char_def strip_prefix_char_def)
qed


lemma read_ipv6_addr_rest:
  assumes "ends_addr rest"
  shows "read_ipv6_addr (ipv6_to_string x @ rest) = Some (x, rest)"
proof (cases "is_ipv4_mapped (segments x)")
  case True
  then show ?thesis using assms by (rule read_ipv6_addr_mapped)
next
  case False
  obtain start len where z: "zero_run 0 (0, 0) (0, 0) (segments x) = (start, len)" by fastforce
  have za: "zeros_at (segments x) (start, len)"
    using zero_run_zeros [of "[]" "segments x" "(0, 0)" "(0, 0)"] z by (simp add: zeros_at_def)
  have small: "\<forall>g \<in> set (segments x). g < 65536" using segments_less by blast
  show ?thesis
  proof (cases "1 < len")
    case True
    let ?hd = "take start (segments x)" and ?tl = "drop (start + len) (segments x)"
    have bound: "start + len \<le> 8" using za by (simp add: zeros_at_def)
    have s: "ipv6_to_string x @ rest = fmt_subslice ?hd @ ''::'' @ fmt_subslice ?tl @ rest"
      using False z True by (simp add: ipv6_to_string_def Let_def)
    have head: "read_groups 8 0 (fmt_subslice ?hd @ ''::'' @ fmt_subslice ?tl @ rest)
        = (?hd, False, ''::'' @ fmt_subslice ?tl @ rest)"
      using small assms by (intro read_groups_fmt)
        (auto simp: ends_groups_def ends_addr_def fmt_subslice_no_dot dest: in_set_takeD)
    have tail: "read_groups (8 - (start + 1)) 0 (fmt_subslice ?tl @ rest) = (?tl, False, rest)"
    proof -
      have "\<forall>g \<in> set ?tl. g < 65536" using small by (meson in_set_dropD)
      moreover have "length ?tl \<le> 8 - (start + 1)" using True bound by simp
      ultimately show ?thesis
        using read_groups_fmt [of ?tl "8 - (start + 1)" rest] ends_addr_groups [OF assms] by simp
    qed
    have "?hd @ replicate (8 - start - (8 - (start + len))) 0 @ ?tl = segments x"
      using zeros_at_split [OF za] bound by simp
    then show ?thesis
      using head tail bound True from_segments_segments [of x]
      by (simp add: s read_ipv6_addr_def read_given_char_def strip_prefix_char_def Let_def)
  next
    case short: False
    then have "ipv6_to_string x @ rest = fmt_subslice (segments x) @ rest"
      using False z by (simp add: ipv6_to_string_def Let_def)
    moreover have "read_groups 8 0 (fmt_subslice (segments x) @ rest) = (segments x, False, rest)"
      using small ends_addr_groups [OF assms] by (intro read_groups_fmt) auto
    ultimately show ?thesis by (simp add: read_ipv6_addr_def)
  qed
qed

lemma read_ipv6_addr_show: "read_ipv6_addr (ipv6_to_string x) = Some (x, [])"
  using read_ipv6_addr_rest [of "[]" x] by (simp add: ends_addr_def)

lemma ipv6_from_to_string [simp]: "ipv6_from_str (ipv6_to_string x) = Some x"
  by (simp add: ipv6_from_str_def parse_with_def read_ipv6_addr_show)


lemma ip_from_str_ipv4 [simp]: "ip_from_str (ipv4_to_string x) = Some (V4 x)"
  using read_ipv4_addr_show [of "[]" x] by (simp add: ip_from_str_def parse_with_def read_ip_addr_def)

lemma read_ipv4_addr_ipv6_text: "read_ipv4_addr (ipv6_to_string x) = None"
proof (cases "is_ipv4_mapped (segments x)")
  case True
  then show ?thesis by (intro read_ipv4_addr_no_digit) (simp add: ipv6_to_string_def)
next
  case False
  then show ?thesis
    by (intro read_ipv4_addr_no_dot)
      (auto simp: ipv6_to_string_def Let_def fmt_subslice_no_dot split: prod.splits if_splits)
qed

lemma ip_from_str_ipv6 [simp]: "ip_from_str (ipv6_to_string x) = Some (V6 x)"
  by (simp add: ip_from_str_def parse_with_def read_ip_addr_def read_ipv4_addr_ipv6_text
      read_ipv6_addr_show)

lemma ip_from_to_string [simp]: "ip_from_str (ip_to_string a) = Some a"
  by (cases a) simp_all

lemma ipv6_from_str_ipv4 [simp]: "ipv6_from_str (ipv4_to_string x) = None"
proof -
  have "read_groups 8 0 (ipv4_to_string x) = (nat_digits 65536 2 (unat x), True, [])"
    using read_ipv4_addr_show [of "[]" x] read_groups.simps(2) [of 7 0]
    by (simp add: read_separator_def del: read_groups.simps)
  then show ?thesis by (simp add: ipv6_from_str_def parse_with_def read_ipv6_addr_def)
qed

lemma ipv4_from_str_ipv6 [simp]: "ipv4_from_str (ipv6_to_string x) = None"
  by (simp add: ipv4_from_str_def parse_with_def read_ipv4_addr_ipv6_text)

text \<open>Exactly the IPv6 text forms contain a colon.\<close>

lemma show_nat_no_colon: "CHR '':'' \<notin> set (show_nat n)"
proof
  assume "CHR '':'' \<in> set (show_nat n)"
  then obtain d where "d < 16" and "CHR '':'' = digit_char d"
    using set_show_radix [of 10 "CHR '':''" n] by auto
  then show False using digit_char_not_sep [of d] by simp
qed

lemma colon_ipv4 [simp]: "CHR '':'' \<notin> set (ipv4_to_string x)"
proof -
  have "length (octets x) = 4" by (simp add: octets_def)
  then obtain a b c d where "octets x = [a, b, c, d]" by (rule length_eq_4E)
  then show ?thesis by (simp add: ipv4_to_string_def show_nat_no_colon)
qed

lemma colon_ipv6 [simp]: "CHR '':'' \<in> set (ipv6_to_string x)"
proof -
  have "CHR '':'' \<in> set (fmt_subslice (segments x))"
  proof (cases "segments x")
    case Nil
    then show ?thesis using length_segments [of x] by simp
  next
    case (Cons g gs)
    then have "gs \<noteq> []" using length_segments [of x] by auto
    then show ?thesis by (cases gs) (simp_all add: Cons fmt_subslice_Cons colon_groups_def)
  qed
  then show ?thesis by (cases "zero_run 0 (0, 0) (0, 0) (segments x)") (simp add: ipv6_to_string_def Let_def)
qed

end
