(* ===== verification/Catalog.thy ===== *)
theory Catalog
  imports Std_Net
begin

text \<open>
  The Telegram address catalogue (\<open>telegram/catalog.rs\<close>): the static table from IPv4
  addresses to data centres, the IPv4 and IPv6 ranges that count as Telegram, and the
  WebSocket host names of a data centre. The tables are lazily built from text with
  \<open>unwrap\<close>; a failing \<open>unwrap\<close> panics, so a table is an option whose \<open>None\<close> is that panic,
  and the lookups that force a table return \<open>None\<close> with it.
\<close>

record telegram_ip_entry =
  e_dc :: u8
  e_is_media :: bool

definition ip_to_u32 :: "string \<Rightarrow> u32 option" where
  "ip_to_u32 ip = ipv4_from_str ip"

definition ipv6_to_u128 :: "string \<Rightarrow> u128 option" where
  "ipv6_to_u128 ip = ipv6_from_str ip"

definition range_entry :: "string \<Rightarrow> string \<Rightarrow> u8 \<Rightarrow> bool \<Rightarrow> (u32 \<times> u32 \<times> telegram_ip_entry) option" where
  "range_entry start end' dc is_media = do {
     a \<leftarrow> ip_to_u32 start;
     b \<leftarrow> ip_to_u32 end';
     Some (a, b, \<lparr>e_dc = dc, e_is_media = is_media\<rparr>) }"

definition IP_TO_DC :: "(u32 \<times> u32 \<times> telegram_ip_entry) list option" where
  "IP_TO_DC = those
     [range_entry ''149.154.175.50'' ''149.154.175.50'' 1 False,
      range_entry ''149.154.175.51'' ''149.154.175.51'' 1 False,
      range_entry ''149.154.175.53'' ''149.154.175.53'' 1 False,
      range_entry ''149.154.175.54'' ''149.154.175.54'' 1 False,
      range_entry ''149.154.175.52'' ''149.154.175.52'' 1 True,
      range_entry ''149.154.167.220'' ''149.154.167.220'' 2 False,
      range_entry ''149.154.167.41'' ''149.154.167.41'' 2 False,
      range_entry ''149.154.167.50'' ''149.154.167.50'' 2 False,
      range_entry ''149.154.167.51'' ''149.154.167.51'' 2 False,
      range_entry ''95.161.76.100'' ''95.161.76.100'' 2 False,
      range_entry ''149.154.167.35'' ''149.154.167.35'' 2 True,
      range_entry ''149.154.167.222'' ''149.154.167.222'' 2 True,
      range_entry ''149.154.167.151'' ''149.154.167.151'' 2 True,
      range_entry ''149.154.167.223'' ''149.154.167.223'' 2 True,
      range_entry ''149.154.162.123'' ''149.154.162.123'' 2 True,
      range_entry ''149.154.175.100'' ''149.154.175.100'' 3 False,
      range_entry ''149.154.175.101'' ''149.154.175.101'' 3 False,
      range_entry ''149.154.175.102'' ''149.154.175.102'' 3 True,
      range_entry ''149.154.167.91'' ''149.154.167.91'' 4 False,
      range_entry ''149.154.167.92'' ''149.154.167.92'' 4 False,
      range_entry ''149.154.164.250'' ''149.154.164.250'' 4 True,
      range_entry ''149.154.166.120'' ''149.154.166.120'' 4 True,
      range_entry ''149.154.166.121'' ''149.154.166.121'' 4 True,
      range_entry ''149.154.167.118'' ''149.154.167.118'' 4 True,
      range_entry ''149.154.165.111'' ''149.154.165.111'' 4 True,
      range_entry ''91.108.56.100'' ''91.108.56.100'' 5 False,
      range_entry ''91.108.56.101'' ''91.108.56.101'' 5 False,
      range_entry ''91.108.56.116'' ''91.108.56.116'' 5 False,
      range_entry ''91.108.56.126'' ''91.108.56.126'' 5 False,
      range_entry ''149.154.171.5'' ''149.154.171.5'' 5 False,
      range_entry ''91.108.56.102'' ''91.108.56.102'' 5 True,
      range_entry ''91.108.56.128'' ''91.108.56.128'' 5 True,
      range_entry ''91.108.56.151'' ''91.108.56.151'' 5 True]"

definition TG_IPV4_RANGES :: "(u32 \<times> u32) list option" where
  "TG_IPV4_RANGES = those
     [do { a \<leftarrow> ip_to_u32 ''185.76.151.0''; b \<leftarrow> ip_to_u32 ''185.76.151.255''; Some (a, b) },
      do { a \<leftarrow> ip_to_u32 ''149.154.160.0''; b \<leftarrow> ip_to_u32 ''149.154.175.255''; Some (a, b) },
      do { a \<leftarrow> ip_to_u32 ''91.105.192.0''; b \<leftarrow> ip_to_u32 ''91.105.193.255''; Some (a, b) },
      do { a \<leftarrow> ip_to_u32 ''91.108.0.0''; b \<leftarrow> ip_to_u32 ''91.108.255.255''; Some (a, b) }]"

definition TG_IPV6_RANGES :: "(u128 \<times> u128) list option" where
  "TG_IPV6_RANGES = those
     [do { a \<leftarrow> ipv6_to_u128 ''2001:67c:4e8::'';
           b \<leftarrow> ipv6_to_u128 ''2001:67c:4e8:ffff:ffff:ffff:ffff:ffff''; Some (a, b) },
      do { a \<leftarrow> ipv6_to_u128 ''2001:b28:f23d::'';
           b \<leftarrow> ipv6_to_u128 ''2001:b28:f23d:ffff:ffff:ffff:ffff:ffff''; Some (a, b) },
      do { a \<leftarrow> ipv6_to_u128 ''2001:b28:f23f::'';
           b \<leftarrow> ipv6_to_u128 ''2001:b28:f23f:ffff:ffff:ffff:ffff:ffff''; Some (a, b) }]"

definition in_range :: "'a::ord \<Rightarrow> 'a \<times> 'a \<Rightarrow> bool" where
  "in_range v r \<longleftrightarrow> fst r \<le> v \<and> v \<le> snd r"

definition is_telegram_ip :: "string \<Rightarrow> bool option" where
  "is_telegram_ip ip =
     (case ip_from_str ip of
        Some (V4 a) \<Rightarrow> map_option (list_ex (in_range a)) TG_IPV4_RANGES
      | Some (V6 a) \<Rightarrow> map_option (list_ex (in_range a)) TG_IPV6_RANGES
      | None \<Rightarrow> Some False)"

definition ip_to_dc :: "string \<Rightarrow> telegram_ip_entry option option" where
  "ip_to_dc ip =
     (case ipv4_from_str ip of
        None \<Rightarrow> Some None
      | Some a \<Rightarrow>
          map_option (\<lambda>t. map_option (\<lambda>(_, _, entry). entry)
                            (find (\<lambda>(start, end', _). start \<le> a \<and> a \<le> end') t)) IP_TO_DC)"

definition ws_domains :: "u8 \<Rightarrow> bool \<Rightarrow> string list" where
  "ws_domains dc is_media =
     (if is_media
      then [''kws'' @ show_nat (unat dc) @ ''-1.web.telegram.org'',
            ''kws'' @ show_nat (unat dc) @ ''.web.telegram.org'']
      else [''kws'' @ show_nat (unat dc) @ ''.web.telegram.org'',
            ''kws'' @ show_nat (unat dc) @ ''-1.web.telegram.org''])"

section \<open>The tables\<close>

definition ip_to_dc_table :: "(u32 \<times> u32 \<times> telegram_ip_entry) list" where
  "ip_to_dc_table =
     [(2509942578, 2509942578, \<lparr>e_dc = 1, e_is_media = False\<rparr>),
      (2509942579, 2509942579, \<lparr>e_dc = 1, e_is_media = False\<rparr>),
      (2509942581, 2509942581, \<lparr>e_dc = 1, e_is_media = False\<rparr>),
      (2509942582, 2509942582, \<lparr>e_dc = 1, e_is_media = False\<rparr>),
      (2509942580, 2509942580, \<lparr>e_dc = 1, e_is_media = True\<rparr>),
      (2509940700, 2509940700, \<lparr>e_dc = 2, e_is_media = False\<rparr>),
      (2509940521, 2509940521, \<lparr>e_dc = 2, e_is_media = False\<rparr>),
      (2509940530, 2509940530, \<lparr>e_dc = 2, e_is_media = False\<rparr>),
      (2509940531, 2509940531, \<lparr>e_dc = 2, e_is_media = False\<rparr>),
      (1604406372, 1604406372, \<lparr>e_dc = 2, e_is_media = False\<rparr>),
      (2509940515, 2509940515, \<lparr>e_dc = 2, e_is_media = True\<rparr>),
      (2509940702, 2509940702, \<lparr>e_dc = 2, e_is_media = True\<rparr>),
      (2509940631, 2509940631, \<lparr>e_dc = 2, e_is_media = True\<rparr>),
      (2509940703, 2509940703, \<lparr>e_dc = 2, e_is_media = True\<rparr>),
      (2509939323, 2509939323, \<lparr>e_dc = 2, e_is_media = True\<rparr>),
      (2509942628, 2509942628, \<lparr>e_dc = 3, e_is_media = False\<rparr>),
      (2509942629, 2509942629, \<lparr>e_dc = 3, e_is_media = False\<rparr>),
      (2509942630, 2509942630, \<lparr>e_dc = 3, e_is_media = True\<rparr>),
      (2509940571, 2509940571, \<lparr>e_dc = 4, e_is_media = False\<rparr>),
      (2509940572, 2509940572, \<lparr>e_dc = 4, e_is_media = False\<rparr>),
      (2509939962, 2509939962, \<lparr>e_dc = 4, e_is_media = True\<rparr>),
      (2509940344, 2509940344, \<lparr>e_dc = 4, e_is_media = True\<rparr>),
      (2509940345, 2509940345, \<lparr>e_dc = 4, e_is_media = True\<rparr>),
      (2509940598, 2509940598, \<lparr>e_dc = 4, e_is_media = True\<rparr>),
      (2509940079, 2509940079, \<lparr>e_dc = 4, e_is_media = True\<rparr>),
      (1533818980, 1533818980, \<lparr>e_dc = 5, e_is_media = False\<rparr>),
      (1533818981, 1533818981, \<lparr>e_dc = 5, e_is_media = False\<rparr>),
      (1533818996, 1533818996, \<lparr>e_dc = 5, e_is_media = False\<rparr>),
      (1533819006, 1533819006, \<lparr>e_dc = 5, e_is_media = False\<rparr>),
      (2509941509, 2509941509, \<lparr>e_dc = 5, e_is_media = False\<rparr>),
      (1533818982, 1533818982, \<lparr>e_dc = 5, e_is_media = True\<rparr>),
      (1533819008, 1533819008, \<lparr>e_dc = 5, e_is_media = True\<rparr>),
      (1533819031, 1533819031, \<lparr>e_dc = 5, e_is_media = True\<rparr>)]"

lemma IP_TO_DC_table: "IP_TO_DC = Some ip_to_dc_table"
  by code_simp

definition tg_ipv4_table :: "(u32 \<times> u32) list" where
  "tg_ipv4_table = [(3108804352, 3108804607), (2509938688, 2509942783),
     (1533657088, 1533657599), (1533804544, 1533870079)]"

lemma TG_IPV4_RANGES_table: "TG_IPV4_RANGES = Some tg_ipv4_table"
  by code_simp

lemma TG_IPV6_RANGES_table:
  "TG_IPV6_RANGES = Some
     [(0x2001067c04e800000000000000000000, 0x2001067c04e8ffffffffffffffffffff),
      (0x20010b28f23d00000000000000000000, 0x20010b28f23dffffffffffffffffffff),
      (0x20010b28f23f00000000000000000000, 0x20010b28f23fffffffffffffffffffff)]"
  by code_simp

lemma ip_to_dc_table_ok:
  "list_all (\<lambda>(a, b, e). a = b \<and> 1 \<le> e_dc e \<and> e_dc e \<le> 5) ip_to_dc_table"
  by code_simp

lemma ip_to_dc_table_telegram:
  "map fst (filter (\<lambda>(a, b, e). \<not> list_ex (in_range a) tg_ipv4_table) ip_to_dc_table)
     = [1604406372]"
  by code_simp

lemma ip_to_dc_table_distinct: "distinct (map fst ip_to_dc_table)"
  by code_simp

section \<open>What the lookups return\<close>

text \<open>
  Reference reading of the range tables: an address is Telegram when it lies in one of
  these prefixes (network address, prefix length).
\<close>

definition in_prefix :: "'a::len word \<Rightarrow> 'a word \<times> nat \<Rightarrow> bool" where
  "in_prefix a p \<longleftrightarrow>
     unat a div 2 ^ (LENGTH('a) - snd p) = unat (fst p) div 2 ^ (LENGTH('a) - snd p)"

definition tg_ipv4_prefixes :: "(u32 \<times> nat) list" where
  "tg_ipv4_prefixes = [(0xB94C9700, 24), (0x959AA000, 20), (0x5B69C000, 23), (0x5B6C0000, 16)]"

definition tg_ipv6_prefixes :: "(u128 \<times> nat) list" where
  "tg_ipv6_prefixes =
     [(0x2001067c04e800000000000000000000, 48), (0x20010b28f23d00000000000000000000, 48),
      (0x20010b28f23f00000000000000000000, 48)]"

fun telegram_prefix :: "ip_addr \<Rightarrow> bool" where
  "telegram_prefix (V4 a) = list_ex (in_prefix a) tg_ipv4_prefixes"
| "telegram_prefix (V6 a) = list_ex (in_prefix a) tg_ipv6_prefixes"

lemma div_range_iff: "0 < d \<Longrightarrow> n div d = q \<longleftrightarrow> q * d \<le> n \<and> n \<le> q * d + (d - 1)" for n d q :: nat
proof -
  assume d: "0 < d"
  have "n div d = q \<longleftrightarrow> q * d \<le> n \<and> n < Suc q * d"
    using div_nat_eqI [of d q n] dividend_less_times_div [OF d, of n] by (auto simp: mult.commute)
  also have "\<dots> \<longleftrightarrow> q * d \<le> n \<and> n \<le> q * d + (d - 1)" using d by auto
  finally show ?thesis .
qed

lemma in_range_prefix:
  fixes lo hi a :: "'a::len word"
  assumes "unat lo = q * 2 ^ (LENGTH('a) - k)" "unat hi = q * 2 ^ (LENGTH('a) - k) + (2 ^ (LENGTH('a) - k) - 1)"
  shows "in_range a (lo, hi) \<longleftrightarrow> in_prefix a (lo, k)"
  using assms by (simp add: in_range_def in_prefix_def word_le_nat_alt div_range_iff)

lemma is_telegram_ip_v4_prefix:
  "is_telegram_ip (ipv4_to_string a) = Some (list_ex (in_prefix a) tg_ipv4_prefixes)"
proof -
  have "in_range a (3108804352, 3108804607) = in_prefix a (0xB94C9700, 24)"
    "in_range a (2509938688, 2509942783) = in_prefix a (0x959AA000, 20)"
    "in_range a (1533657088, 1533657599) = in_prefix a (0x5B69C000, 23)"
    "in_range a (1533804544, 1533870079) = in_prefix a (0x5B6C0000, 16)"
    using in_range_prefix [of 3108804352 "3108804352 div 2 ^ 8" 24 3108804607 a]
      in_range_prefix [of 2509938688 "2509938688 div 2 ^ 12" 20 2509942783 a]
      in_range_prefix [of 1533657088 "1533657088 div 2 ^ 9" 23 1533657599 a]
      in_range_prefix [of 1533804544 "1533804544 div 2 ^ 16" 16 1533870079 a] by simp_all
  then show ?thesis
    by (simp add: is_telegram_ip_def TG_IPV4_RANGES_table tg_ipv4_table_def
        tg_ipv4_prefixes_def)
qed

lemma is_telegram_ip_v6_prefix:
  "is_telegram_ip (ipv6_to_string a) = Some (list_ex (in_prefix a) tg_ipv6_prefixes)"
proof -
  have "in_range a (0x2001067c04e800000000000000000000, 0x2001067c04e8ffffffffffffffffffff)
       = in_prefix a (0x2001067c04e800000000000000000000, 48)"
    "in_range a (0x20010b28f23d00000000000000000000, 0x20010b28f23dffffffffffffffffffff)
       = in_prefix a (0x20010b28f23d00000000000000000000, 48)"
    "in_range a (0x20010b28f23f00000000000000000000, 0x20010b28f23fffffffffffffffffffff)
       = in_prefix a (0x20010b28f23f00000000000000000000, 48)"
    using in_range_prefix [of "0x2001067c04e800000000000000000000" "0x2001067c04e8" 48 "0x2001067c04e8ffffffffffffffffffff" a]
      in_range_prefix [of "0x20010b28f23d00000000000000000000" "0x20010b28f23d" 48 "0x20010b28f23dffffffffffffffffffff" a]
      in_range_prefix [of "0x20010b28f23f00000000000000000000" "0x20010b28f23f" 48 "0x20010b28f23fffffffffffffffffffff" a] by simp_all
  then show ?thesis
    by (simp add: is_telegram_ip_def TG_IPV6_RANGES_table tg_ipv6_prefixes_def)
qed

lemma ip_from_str_of_ipv4: "ipv4_from_str s = Some a \<Longrightarrow> ip_from_str s = Some (V4 a)"
  by (auto simp: ipv4_from_str_def ip_from_str_def parse_with_def read_ip_addr_def
      split: if_splits option.splits list.splits prod.splits)

lemma ip_to_dc_Some:
  assumes "ip_to_dc s = Some (Some e)"
  obtains a where "ipv4_from_str s = Some a" and "(a, a, e) \<in> set ip_to_dc_table"
proof -
  from assms obtain a b c where a: "ipv4_from_str s = Some a"
    and f: "find (\<lambda>(start, end', _). start \<le> a \<and> a \<le> end') ip_to_dc_table = Some (b, c, e)"
    by (auto simp: ip_to_dc_def IP_TO_DC_table split: option.splits)
  from f have m: "(b, c, e) \<in> set ip_to_dc_table" and r: "b \<le> a" "a \<le> c"
    by (auto simp: find_Some_iff in_set_conv_nth)
  from m ip_to_dc_table_ok have "b = c" by (auto simp: list_all_iff)
  with r have "a = b" "a = c" by simp_all
  with a m show ?thesis by (intro that) auto
qed

section \<open>Properties\<close>

text \<open>
  C14. The text form of an IP address is classified as Telegram exactly when the address lies
  in one of the announced prefixes 185.76.151.0/24, 149.154.160.0/20, 91.105.192.0/23,
  91.108.0.0/16, 2001:67c:4e8::/48, 2001:b28:f23d::/48 or 2001:b28:f23f::/48; the lazily
  built tables never panic on the way.
\<close>

theorem is_telegram_ip_prefixes: "is_telegram_ip (ip_to_string a) = Some (telegram_prefix a)"
  by (cases a) (simp_all add: is_telegram_ip_v4_prefix is_telegram_ip_v6_prefix)

text \<open>
  Every static data centre entry names a data centre from 1 to 5, and every address
  that has one is also recognised as Telegram, with the one exception of 95.161.76.100,
  whose entry the routing can therefore never use.
\<close>

theorem ip_to_dc_sound:
  assumes "ip_to_dc s = Some (Some e)"
  shows "1 \<le> e_dc e \<and> e_dc e \<le> 5
    \<and> is_telegram_ip s = Some (ipv4_from_str s \<noteq> Some 0x5FA14C64)"
proof -
  from assms obtain a where a: "ipv4_from_str s = Some a" and m: "(a, a, e) \<in> set ip_to_dc_table"
    by (rule ip_to_dc_Some)
  have dc: "1 \<le> e_dc e \<and> e_dc e \<le> 5" using m ip_to_dc_table_ok by (auto simp: list_all_iff)
  have "list_ex (in_range a) tg_ipv4_table \<longleftrightarrow> a \<noteq> 1604406372"
  proof
    assume "a \<noteq> 1604406372"
    then have "a \<notin> set (map fst (filter (\<lambda>(a, b, e). \<not> list_ex (in_range a) tg_ipv4_table) ip_to_dc_table))"
      by (simp only: ip_to_dc_table_telegram) simp
    with m show "list_ex (in_range a) tg_ipv4_table" by force
  next
    assume "list_ex (in_range a) tg_ipv4_table"
    then show "a \<noteq> 1604406372" by (auto simp: tg_ipv4_table_def in_range_def)
  qed
  then have "is_telegram_ip s = Some (a \<noteq> 1604406372)"
    by (simp add: is_telegram_ip_def ip_from_str_of_ipv4 [OF a] TG_IPV4_RANGES_table)
  with dc a show ?thesis by simp
qed

theorem ip_to_dc_sound_witness:
  "ip_to_dc ''149.154.167.35'' = Some (Some \<lparr>e_dc = 2, e_is_media = True\<rparr>)
    \<and> is_telegram_ip ''149.154.167.35'' = Some True"
proof -
  have h: "ip_to_dc ''149.154.167.35'' = Some (Some \<lparr>e_dc = 2, e_is_media = True\<rparr>)"
    by code_simp
  have "ipv4_from_str ''149.154.167.35'' \<noteq> Some 0x5FA14C64" by code_simp
  with h ip_to_dc_sound [OF h] show ?thesis by simp
qed

text \<open>
  A data centre has two distinct WebSocket hosts; the media flag only decides which of
  the two is tried first, and hosts of different data centres are never shared.
\<close>

theorem ws_domains_sound:
  "ws_domains dc True = rev (ws_domains dc False) \<and> distinct (ws_domains dc m)
    \<and> (set (ws_domains dc m) \<inter> set (ws_domains dc' m') \<noteq> {} \<longleftrightarrow> dc = dc')"
proof -
  have inj: "show_nat a @ x = show_nat b @ y \<longleftrightarrow> a = b \<and> x = y"
    if "a < 256" "b < 256" "no_digit 10 x" "no_digit 10 y" for a b x y
    using read_octet_show [of a x] read_octet_show [of b y] that by (metis Pair_inject option.inject)
  have nd: "no_digit 10 ''-1.web.telegram.org''" "no_digit 10 ''.web.telegram.org''"
    by (simp_all add: no_digit_def to_digit_def)
  have "show_nat (unat dc) = show_nat (unat dc') \<longleftrightarrow> dc = dc'"
    using inj [of "unat dc" "unat dc'" "[]" "[]"] by (simp add: word_unat_eq_iff)
  then show ?thesis
    by (cases m; cases m') (auto simp: ws_domains_def inj nd)
qed

end
