(* ===== verification/Cipher.thy ===== *)
theory Cipher
  imports Prelude
begin

text \<open>
  The interface to the stream cipher \<open>ctr::Ctr128BE<Aes256>\<close>, which is code of the crates
  \<open>aes\<close>, \<open>ctr\<close> and \<open>cipher\<close> and so a parameter of every definition that uses it: a record of
  the two methods the program calls. The locale \<open>stream_cipher\<close> states what the program
  relies on: construction succeeds for a 32-byte key and a 16-byte nonce, and
  \<open>apply_keystream\<close> xors the data with the next bytes of a fixed keystream and advances by
  their number. The locale is interpreted on counter mode over any block function, the
  construction \<open>Ctr128BE\<close> is.
\<close>

record 'c cipher_api =
  new_from_slices :: "bytes \<Rightarrow> bytes \<Rightarrow> 'c option"
  apply_keystream :: "'c \<Rightarrow> bytes \<Rightarrow> bytes \<times> 'c"

section \<open>Counter mode with a 128-bit big-endian counter\<close>

record ctr_state =
  ctr_key :: bytes
  ctr_iv :: bytes
  ctr_pos :: nat

definition ctr_keystream :: "(bytes \<Rightarrow> bytes \<Rightarrow> bytes) \<Rightarrow> ctr_state \<Rightarrow> nat \<Rightarrow> byte" where
  "ctr_keystream enc c i =
     (let p = ctr_pos c + i;
          counter = from_be_bytes (ctr_iv c) + word_of_nat (p div 16) :: u128
      in enc (ctr_key c) (to_be_bytes 16 counter) ! (p mod 16))"

definition ctr_new :: "bytes \<Rightarrow> bytes \<Rightarrow> ctr_state option" where
  "ctr_new key iv =
     (if length key = 32 \<and> length iv = 16
      then Some \<lparr>ctr_key = key, ctr_iv = iv, ctr_pos = 0\<rparr> else None)"

definition ctr_apply :: "(bytes \<Rightarrow> bytes \<Rightarrow> bytes) \<Rightarrow> ctr_state \<Rightarrow> bytes \<Rightarrow> bytes \<times> ctr_state" where
  "ctr_apply enc c data =
     (xor_with (ctr_keystream enc c) data, c\<lparr>ctr_pos := ctr_pos c + length data\<rparr>)"

definition ctr_api :: "(bytes \<Rightarrow> bytes \<Rightarrow> bytes) \<Rightarrow> ctr_state cipher_api" where
  "ctr_api enc = \<lparr>new_from_slices = ctr_new, apply_keystream = ctr_apply enc\<rparr>"

section \<open>The contract\<close>

locale stream_cipher =
  fixes C :: "'c cipher_api" and ks :: "'c \<Rightarrow> nat \<Rightarrow> byte"
  assumes new_ok: "length key = 32 \<Longrightarrow> length iv = 16 \<Longrightarrow> new_from_slices C key iv \<noteq> None"
    and apply_data: "fst (apply_keystream C c data) = xor_with (ks c) data"
    and apply_advance: "ks (snd (apply_keystream C c data)) i = ks c (length data + i)"
begin

lemma apply_length [simp]: "length (fst (apply_keystream C c data)) = length data"
  by (simp add: apply_data)

lemma apply_zeros: "fst (apply_keystream C c (replicate n 0)) = map (ks c) [0..<n]"
  by (rule nth_equalityI) (simp_all add: apply_data)

lemma new_obtain:
  assumes "length key = 32" "length iv = 16"
  obtains c where "new_from_slices C key iv = Some c"
  using new_ok [OF assms] by blast

text \<open>Two applications in a row are one application to the concatenation.\<close>

lemma apply_append:
  "fst (apply_keystream C c (xs @ ys))
     = fst (apply_keystream C c xs) @ fst (apply_keystream C (snd (apply_keystream C c xs)) ys)"
  by (simp add: apply_data xor_with_append apply_advance [abs_def])

end

interpretation ctr: stream_cipher "ctr_api enc" "ctr_keystream enc" for enc
  by unfold_locales
    (simp_all add: ctr_api_def ctr_new_def ctr_apply_def ctr_keystream_def add.assoc)

end
