(* ===== verification/Tg_Init.thy ===== *)
theory Tg_Init
  imports Cipher
begin

text \<open>
  The obfuscated MTProto init packet (\<open>telegram/init.rs\<close>): reading the data centre out of the
  enciphered header and patching it. Key and nonce of the cipher are bytes 8 to 39 and 40 to
  55 of the packet itself; the header is bytes 56 to 63, of which four bytes are the
  transport tag and two the signed data centre number. The slices are taken only from
  packets of at least 64 bytes, which both callers check first.
\<close>

record telegram_init_info =
  i_dc :: "u8 option"
  i_is_media :: bool

definition slice :: "nat \<Rightarrow> nat \<Rightarrow> 'a list \<Rightarrow> 'a list" where
  "slice a b xs = take (b - a) (drop a xs)"

definition keystream :: "'c cipher_api \<Rightarrow> bytes \<Rightarrow> bytes option" where
  "keystream C data =
     (let key = slice 8 40 data; iv = slice 40 56 data
      in case new_from_slices C key iv of
           None \<Rightarrow> None
         | Some cipher \<Rightarrow> Some (fst (apply_keystream C cipher (replicate 64 0))))"

definition decrypt_header :: "'c cipher_api \<Rightarrow> bytes \<Rightarrow> bytes option" where
  "decrypt_header C data =
     (case keystream C data of
        None \<Rightarrow> None
      | Some stream \<Rightarrow> Some (map (\<lambda>idx. data ! (56 + idx) XOR stream ! (56 + idx)) [0..<8]))"

text \<open>\<open>i16::unsigned_abs\<close>.\<close>

definition unsigned_abs :: "i16 \<Rightarrow> u16" where
  "unsigned_abs w = (if sint w < 0 then - w else w)"

definition extract_dc :: "'c cipher_api \<Rightarrow> bytes \<Rightarrow> telegram_init_info" where
  "extract_dc C data =
     (if length data < 64 then \<lparr>i_dc = None, i_is_media = False\<rparr>
      else
        let plain = (case decrypt_header C data of None \<Rightarrow> replicate 8 0 | Some p \<Rightarrow> p);
            proto = (from_le_bytes (slice 0 4 plain) :: u32)
        in if \<not> (proto = 0xEFEFEFEF \<or> proto = 0xEEEEEEEE \<or> proto = 0xDDDDDDDD)
           then \<lparr>i_dc = None, i_is_media = False\<rparr>
           else
             let dc_raw = (from_le_bytes (slice 4 6 plain) :: i16);
                 dc = (ucast (unsigned_abs dc_raw) :: u8)
             in if 1 \<le> dc \<and> dc \<le> 5
                then \<lparr>i_dc = Some dc, i_is_media = sint dc_raw < 0\<rparr>
                else \<lparr>i_dc = None, i_is_media = False\<rparr>)"

definition patch_init_dc :: "'c cipher_api \<Rightarrow> bytes \<Rightarrow> i16 \<Rightarrow> bytes" where
  "patch_init_dc C data dc =
     (if length data < 64 then data
      else case keystream C data of
        None \<Rightarrow> data
      | Some stream \<Rightarrow>
          let dc_bytes = to_le_bytes 2 dc;
              out = (slice 0 64 data)
                [60 := stream ! 60 XOR dc_bytes ! 0, 61 := stream ! 61 XOR dc_bytes ! 1]
          in if 64 < length data then out @ drop 64 data else out)"

text \<open>The signed number that \<open>resolve_telegram_init\<close> encodes: negative for a media data centre.\<close>

definition signed_dc :: "u8 \<Rightarrow> bool \<Rightarrow> i16" where
  "signed_dc dc is_media = (if is_media then - ucast dc else ucast dc)"

section \<open>Reading and patching against the cipher contract\<close>

text \<open>The transport tag that the header of a packet deciphers to.\<close>

definition init_tag :: "'c cipher_api \<Rightarrow> bytes \<Rightarrow> u32" where
  "init_tag C data = from_le_bytes (slice 0 4 (case decrypt_header C data of
     None \<Rightarrow> replicate 8 0 | Some p \<Rightarrow> p))"

definition known_tag :: "u32 \<Rightarrow> bool" where
  "known_tag t \<longleftrightarrow> t = 0xEFEFEFEF \<or> t = 0xEEEEEEEE \<or> t = 0xDDDDDDDD"

text \<open>What a client sends: 56 bytes of its choice, then the header under its keystream.\<close>

definition init_packet :: "(nat \<Rightarrow> byte) \<Rightarrow> bytes \<Rightarrow> bytes \<Rightarrow> bytes" where
  "init_packet f pre plain = pre @ xor_with (\<lambda>i. f (56 + i)) plain"

text \<open>How the decoded number is reported.\<close>

definition info_of_raw :: "i16 \<Rightarrow> telegram_init_info" where
  "info_of_raw dc_raw =
     (let dc = (ucast (unsigned_abs dc_raw) :: u8)
      in if 1 \<le> dc \<and> dc \<le> 5 then \<lparr>i_dc = Some dc, i_is_media = sint dc_raw < 0\<rparr>
         else \<lparr>i_dc = None, i_is_media = False\<rparr>)"

lemma extract_dc_decrypted:
  assumes "64 \<le> length data" "decrypt_header C data = Some plain"
  shows "extract_dc C data =
    (if known_tag (from_le_bytes (slice 0 4 plain)) then info_of_raw (from_le_bytes (slice 4 6 plain))
     else \<lparr>i_dc = None, i_is_media = False\<rparr>)"
  using assms by (simp add: extract_dc_def known_tag_def info_of_raw_def Let_def)

lemma length_patch_init_dc [simp]: "length (patch_init_dc C data dc) = length data"
  by (simp add: patch_init_dc_def slice_def Let_def split: option.split)

lemma nth_patch_init_dc:
  assumes "i \<noteq> 60" "i \<noteq> 61"
  shows "patch_init_dc C data dc ! i = data ! i"
proof (cases "64 \<le> length data")
  case True
  show ?thesis
  proof (cases "i < 64")
    case True
    then show ?thesis
      using \<open>64 \<le> length data\<close> assms
      by (auto simp: patch_init_dc_def slice_def Let_def nth_append split: option.split)
  next
    case False
    then show ?thesis
      using True assms
      by (auto simp: patch_init_dc_def slice_def Let_def nth_append nth_list_update split: option.split)
  qed
next
  case False
  then show ?thesis by (simp add: patch_init_dc_def)
qed

lemma slice_patch_init_dc:
  assumes "b \<le> 60"
  shows "slice a b (patch_init_dc C data dc) = slice a b data"
  unfolding slice_def by (rule nth_equalityI) (use assms in \<open>auto simp: nth_patch_init_dc\<close>)

lemma length_slice [simp]: "length (slice a b xs) = min (b - a) (length xs - a)"
  by (simp add: slice_def min.commute)

lemma map_upt_slice: "b \<le> n \<Longrightarrow> slice a b (map f [0..<n]) = map f [a..<b]"
  by (cases "a \<le> b") (simp_all add: slice_def drop_map take_map)

context stream_cipher
begin

lemma keystream_new:
  assumes "new_from_slices C (slice 8 40 data) (slice 40 56 data) = Some c"
  shows "keystream C data = Some (map (ks c) [0..<64])"
  using assms by (simp add: keystream_def Let_def apply_zeros)

lemma decrypt_header_new:
  assumes "new_from_slices C (slice 8 40 data) (slice 40 56 data) = Some c"
  shows "decrypt_header C data = Some (map (\<lambda>i. data ! (56 + i) XOR ks c (56 + i)) [0..<8])"
proof -
  have "map (ks c) [0..<64] ! (56 + i) = ks c (56 + i)" if "i < 8" for i :: nat
    using that by simp
  then show ?thesis by (simp add: decrypt_header_def keystream_new [OF assms])
qed

lemma header_cipher:
  assumes "64 \<le> length data"
  obtains c where "new_from_slices C (slice 8 40 data) (slice 40 56 data) = Some c"
  using new_obtain [of "slice 8 40 data" "slice 40 56 data"] assms by auto

lemma patch_init_dc_bytes:
  assumes "64 \<le> length data"
    and c: "new_from_slices C (slice 8 40 data) (slice 40 56 data) = Some c"
  shows "patch_init_dc C data dc ! 60 = ks c 60 XOR to_le_bytes 2 dc ! 0"
    and "patch_init_dc C data dc ! 61 = ks c 61 XOR to_le_bytes 2 dc ! 1"
  using assms(1)
  by (simp_all add: patch_init_dc_def keystream_new [OF c] Let_def nth_append slice_def)

lemma extract_patched:
  assumes len: "64 \<le> length data"
  shows "extract_dc C (patch_init_dc C data dc) =
    (if known_tag (init_tag C data) then info_of_raw dc
     else \<lparr>i_dc = None, i_is_media = False\<rparr>)"
proof -
  obtain c where c: "new_from_slices C (slice 8 40 data) (slice 40 56 data) = Some c"
    using len by (rule header_cipher)
  let ?p = "patch_init_dc C data dc"
  let ?h = "\<lambda>i. ?p ! (56 + i) XOR ks c (56 + i)"
  have c': "new_from_slices C (slice 8 40 ?p) (slice 40 56 ?p) = Some c"
    using c by (simp add: slice_patch_init_dc)
  have plain: "decrypt_header C ?p = Some (map ?h [0..<8])"
    by (rule decrypt_header_new [OF c'])
  have low: "map ?h [0..<4] = map (\<lambda>i. data ! (56 + i) XOR ks c (56 + i)) [0..<4]"
    by (simp add: nth_patch_init_dc)
  have tag: "from_le_bytes (slice 0 4 (map ?h [0..<8])) = init_tag C data"
    by (simp only: init_tag_def decrypt_header_new [OF c] option.case map_upt_slice low)
  have "?h 4 = to_le_bytes 2 dc ! 0" "?h 5 = to_le_bytes 2 dc ! 1"
    using patch_init_dc_bytes [OF len c, of dc] by simp_all
  moreover have "[4..<6] = [4, 5 :: nat]" by (simp add: upt_rec)
  ultimately have "slice 4 6 (map ?h [0..<8]) = [to_le_bytes 2 dc ! 0, to_le_bytes 2 dc ! 1]"
    by (simp add: map_upt_slice)
  also have "\<dots> = to_le_bytes 2 dc"
    by (rule nth_equalityI) (auto simp: less_2_cases_iff numeral_2_eq_2 nth_Cons split: nat.split)
  finally have "from_le_bytes (slice 4 6 (map ?h [0..<8])) = dc"
    by (simp add: from_to_le_bytes)
  then show ?thesis
    using extract_dc_decrypted [of ?p C, OF _ plain] len tag by simp
qed

lemma decrypt_init_packet:
  assumes pre: "length pre = 56" and len: "length plain = 8"
    and c: "new_from_slices C (slice 8 40 pre) (slice 40 56 pre) = Some c"
  shows "decrypt_header C (init_packet (ks c) pre plain) = Some plain"
proof -
  let ?d = "init_packet (ks c) pre plain"
  have sl: "slice 8 40 ?d = slice 8 40 pre" "slice 40 56 ?d = slice 40 56 pre"
    using pre by (simp_all add: init_packet_def slice_def)
  have "decrypt_header C ?d = Some (map (\<lambda>i. ?d ! (56 + i) XOR ks c (56 + i)) [0..<8])"
    by (rule decrypt_header_new) (simp add: sl c)
  also have "map (\<lambda>i. ?d ! (56 + i) XOR ks c (56 + i)) [0..<8] = plain"
    by (rule nth_equalityI) (use len pre in \<open>simp_all add: init_packet_def nth_append xor.assoc\<close>)
  finally show ?thesis .
qed

lemma extract_init_packet:
  assumes pre: "length pre = 56" and pad: "length pad = 2"
    and c: "new_from_slices C (slice 8 40 pre) (slice 40 56 pre) = Some c"
  shows "init_tag C (init_packet (ks c) pre (to_le_bytes 4 tag @ to_le_bytes 2 dc @ pad)) = tag"
    and "extract_dc C (init_packet (ks c) pre (to_le_bytes 4 tag @ to_le_bytes 2 dc @ pad)) =
      (if known_tag tag then info_of_raw dc else \<lparr>i_dc = None, i_is_media = False\<rparr>)"
proof -
  let ?plain = "to_le_bytes 4 tag @ to_le_bytes 2 dc @ pad"
  let ?d = "init_packet (ks c) pre ?plain"
  have len: "length ?plain = 8" using pad by simp
  note plain = decrypt_init_packet [OF pre len c]
  have sl: "slice 0 4 ?plain = to_le_bytes 4 tag" "slice 4 6 ?plain = to_le_bytes 2 dc"
    by (simp_all add: slice_def)
  show "init_tag C ?d = tag" by (simp add: init_tag_def plain sl from_to_le_bytes)
  show "extract_dc C ?d = (if known_tag tag then info_of_raw dc else \<lparr>i_dc = None, i_is_media = False\<rparr>)"
    using extract_dc_decrypted [of ?d C, OF _ plain] pre len sl
    by (simp add: init_packet_def from_to_le_bytes)
qed

end

section \<open>Properties\<close>

lemma u8_1_5_cases:
  assumes "1 \<le> d" "d \<le> (5 :: u8)"
  obtains "d = 1" | "d = 2" | "d = 3" | "d = 4" | "d = 5"
proof -
  have "unat d \<in> {1, 2, 3, 4, 5}" using assms by (auto simp: word_le_nat_alt)
  then have "d = 1 \<or> d = 2 \<or> d = 3 \<or> d = 4 \<or> d = 5" by (auto simp: word_unat_eq_iff)
  then show ?thesis using that by blast
qed

lemma info_of_signed_dc:
  "1 \<le> d \<Longrightarrow> d \<le> 5 \<Longrightarrow> info_of_raw (signed_dc d m) = \<lparr>i_dc = Some d, i_is_media = m\<rparr>"
  by (erule (1) u8_1_5_cases; cases m)
    (simp_all add: info_of_raw_def signed_dc_def unsigned_abs_def Let_def)

lemma info_of_raw_258: "info_of_raw 258 = \<lparr>i_dc = Some 2, i_is_media = False\<rparr>"
  by (simp add: info_of_raw_def unsigned_abs_def Let_def)

text \<open>
  C15. Round trip of the obfuscated header: whatever 56 bytes a client puts in front, if it
  enciphers a known transport tag and the signed number of a data centre from 1 to 5 under
  the keystream those bytes select, then \<open>extract_dc\<close> reports that data centre and media flag.
\<close>

theorem extract_dc_roundtrip:
  assumes "stream_cipher C ks" "length pre = 56" "length pad = 2"
    and "new_from_slices C (slice 8 40 pre) (slice 40 56 pre) = Some c"
    and "known_tag tag" "1 \<le> d" "d \<le> 5"
  shows "extract_dc C (init_packet (ks c) pre (to_le_bytes 4 tag @ to_le_bytes 2 (signed_dc d m) @ pad))
    = \<lparr>i_dc = Some d, i_is_media = m\<rparr>"
  using stream_cipher.extract_init_packet(2) [OF assms(1-4)] assms(5-7) by (simp add: info_of_signed_dc)

text \<open>A block function for closed examples: the block xored with half of the key.\<close>

definition demo_block :: "bytes \<Rightarrow> bytes \<Rightarrow> bytes" where
  "demo_block key block = map2 (XOR) (take 16 key) block"

definition demo_cipher :: ctr_state where
  "demo_cipher = \<lparr>ctr_key = replicate 32 7, ctr_iv = replicate 16 9, ctr_pos = 0\<rparr>"

definition demo_prefix :: bytes where
  "demo_prefix = replicate 8 1 @ replicate 32 7 @ replicate 16 9"

lemma demo_prefix_new:
  "length demo_prefix = 56"
  "new_from_slices (ctr_api demo_block) (slice 8 40 demo_prefix) (slice 40 56 demo_prefix) = Some demo_cipher"
  by code_simp+

theorem extract_dc_roundtrip_witness:
  "extract_dc (ctr_api demo_block) (init_packet (ctr_keystream demo_block demo_cipher) demo_prefix
      (to_le_bytes 4 (0xDDDDDDDD :: u32) @ to_le_bytes 2 (signed_dc 4 True) @ [0, 0]))
    = \<lparr>i_dc = Some 4, i_is_media = True\<rparr>"
  by (rule extract_dc_roundtrip [OF ctr.stream_cipher_axioms demo_prefix_new(1) _ demo_prefix_new(2)])
    (simp_all add: known_tag_def)

text \<open>
  C16. Patching the data centre into a packet with a known transport tag makes \<open>extract_dc\<close>
  report exactly the patched data centre and media flag, keeps the packet's length and
  changes no byte but 60 and 61.
\<close>

theorem patch_init_dc_roundtrip:
  assumes "stream_cipher C ks" "64 \<le> length data" "known_tag (init_tag C data)" "1 \<le> d" "d \<le> 5"
  shows "extract_dc C (patch_init_dc C data (signed_dc d m)) = \<lparr>i_dc = Some d, i_is_media = m\<rparr>
    \<and> length (patch_init_dc C data (signed_dc d m)) = length data
    \<and> (\<forall>i. i \<noteq> 60 \<and> i \<noteq> 61 \<longrightarrow> patch_init_dc C data (signed_dc d m) ! i = data ! i)"
  using stream_cipher.extract_patched [OF assms(1,2)] assms(3-5)
  by (simp add: info_of_signed_dc nth_patch_init_dc)

definition demo_init :: "i16 \<Rightarrow> bytes" where
  "demo_init dc = init_packet (ctr_keystream demo_block demo_cipher) demo_prefix
     (to_le_bytes 4 (0xEFEFEFEF :: u32) @ to_le_bytes 2 dc @ [0, 0])"

lemma demo_init:
  "length (demo_init dc) = 64"
  "init_tag (ctr_api demo_block) (demo_init dc) = 0xEFEFEFEF"
  "extract_dc (ctr_api demo_block) (demo_init dc) = info_of_raw dc"
  "take 56 (demo_init dc) = demo_prefix"
  using ctr.extract_init_packet [OF demo_prefix_new(1) _ demo_prefix_new(2), of "[0, 0]" "0xEFEFEFEF" dc]
  by (simp_all add: demo_init_def known_tag_def init_packet_def demo_prefix_new(1))

abbreviation demo_packet :: bytes where
  "demo_packet \<equiv> demo_init 0"

lemma info_of_raw_0: "info_of_raw 0 = \<lparr>i_dc = None, i_is_media = False\<rparr>"
  by (simp add: info_of_raw_def unsigned_abs_def Let_def)

lemma demo_packet_tag: "length demo_packet = 64" "init_tag (ctr_api demo_block) demo_packet = 0xEFEFEFEF"
  by (simp_all add: demo_init)

theorem patch_init_dc_roundtrip_witness:
  "extract_dc (ctr_api demo_block) demo_packet = \<lparr>i_dc = None, i_is_media = False\<rparr>
    \<and> extract_dc (ctr_api demo_block) (patch_init_dc (ctr_api demo_block) demo_packet (signed_dc 5 True))
        = \<lparr>i_dc = Some 5, i_is_media = True\<rparr>"
proof
  show "extract_dc (ctr_api demo_block) demo_packet = \<lparr>i_dc = None, i_is_media = False\<rparr>"
    by (simp add: demo_init info_of_raw_0)
  show "extract_dc (ctr_api demo_block) (patch_init_dc (ctr_api demo_block) demo_packet (signed_dc 5 True))
      = \<lparr>i_dc = Some 5, i_is_media = True\<rparr>"
    using patch_init_dc_roundtrip [OF ctr.stream_cipher_axioms, of demo_packet demo_block 5 True] demo_packet_tag
    by (simp add: known_tag_def)
qed

text \<open>
  Whatever the packet and the cipher, a reported data centre is one of 1 to 5, and the
  media flag is set only together with a data centre.
\<close>

lemma extract_dc_range:
  "case i_dc (extract_dc C data) of
     None \<Rightarrow> i_is_media (extract_dc C data) = False
   | Some d \<Rightarrow> 1 \<le> d \<and> d \<le> 5"
  by (simp add: extract_dc_def Let_def)

text \<open>
  The header number is cut to its low eight bits before the range check: a packet that
  carries data centre number 258 is reported as data centre 2.
\<close>

theorem extract_dc_truncates:
  assumes "stream_cipher C ks" "length pre = 56" "length pad = 2"
    and "new_from_slices C (slice 8 40 pre) (slice 40 56 pre) = Some c" "known_tag tag"
  shows "extract_dc C (init_packet (ks c) pre (to_le_bytes 4 tag @ to_le_bytes 2 (258 :: i16) @ pad))
    = \<lparr>i_dc = Some 2, i_is_media = False\<rparr>"
  using stream_cipher.extract_init_packet(2) [OF assms(1-4)] assms(5) by (simp add: info_of_raw_258)

theorem extract_dc_truncates_witness:
  "extract_dc (ctr_api demo_block) (init_packet (ctr_keystream demo_block demo_cipher) demo_prefix
      (to_le_bytes 4 (0xEFEFEFEF :: u32) @ to_le_bytes 2 (258 :: i16) @ [0, 0]))
    = \<lparr>i_dc = Some 2, i_is_media = False\<rparr>"
  by (rule extract_dc_truncates [OF ctr.stream_cipher_axioms demo_prefix_new(1) _ demo_prefix_new(2)])
    (simp_all add: known_tag_def)

end
