(* ===== verification/Splitter.thy ===== *)
theory Splitter
  imports Tg_Init
begin

text \<open>
  The MTProto message splitter (\<open>telegram/splitter.rs\<close>), which cuts what one TCP read
  delivered into WebSocket messages at MTProto abridged message boundaries. The cipher
  state is threaded explicitly. Positions are natural numbers: a chunk is at most a
  \<open>Vec\<close> long and a message length at most \<open>4 * (2^24 - 1)\<close>, so the \<open>usize\<close> sums of the loop
  stay far below \<open>2^64\<close>.
\<close>

record 'c mtproto_message_splitter =
  cipher :: 'c

definition splitter_new :: "'c cipher_api \<Rightarrow> bytes \<Rightarrow> 'c mtproto_message_splitter option" where
  "splitter_new C init_data =
     (if length init_data < 64 then None
      else
        let key = slice 8 40 init_data; iv = slice 40 56 init_data
        in case new_from_slices C key iv of
             None \<Rightarrow> None
           | Some c \<Rightarrow> Some \<lparr>cipher = snd (apply_keystream C c (replicate 64 0))\<rparr>)"

text \<open>
  One turn of the loop: where the message that starts at \<open>pos\<close> ends, or \<open>None\<close> when the loop
  breaks there.
\<close>

definition message_end :: "bytes \<Rightarrow> nat \<Rightarrow> nat option" where
  "message_end plain pos =
     (let first = plain ! pos in
      if first = 0x7f \<and> length plain < pos + 4 then None
      else
        let (pos', msg_len) =
          (if first = 0x7f
           then (pos + 4,
             (unat (plain ! (pos + 1)) OR push_bit 8 (unat (plain ! (pos + 2)))
                OR push_bit 16 (unat (plain ! (pos + 3)))) * 4)
           else (pos + 1, unat first * 4))
        in if msg_len = 0 \<or> length plain < pos' + msg_len then None else Some (pos' + msg_len))"

lemma message_end_bounds: "message_end plain pos = Some p \<Longrightarrow> pos < p \<and> p \<le> length plain"
  by (auto simp: message_end_def Let_def split: if_splits)

function boundaries_from :: "bytes \<Rightarrow> nat \<Rightarrow> nat list" where
  "boundaries_from plain pos =
     (if pos < length plain
      then (case message_end plain pos of
              None \<Rightarrow> []
            | Some p \<Rightarrow> p # boundaries_from plain p)
      else [])"
  by pat_completeness auto
termination
  by (relation "measure (\<lambda>(plain, pos). length plain - pos)") (auto dest: message_end_bounds)

declare boundaries_from.simps [simp del]

fun cut_at :: "bytes \<Rightarrow> nat \<Rightarrow> nat list \<Rightarrow> bytes list" where
  "cut_at chunk prev [] = (if prev < length chunk then [drop prev chunk] else [])"
| "cut_at chunk prev (end' # ends) = slice prev end' chunk # cut_at chunk end' ends"

definition split_chunk ::
    "'c cipher_api \<Rightarrow> 'c mtproto_message_splitter \<Rightarrow> bytes \<Rightarrow> bytes list \<times> 'c mtproto_message_splitter" where
  "split_chunk C sp chunk =
     (if chunk = [] then ([[]], sp)
      else
        let (plain, c') = apply_keystream C (cipher sp) chunk;
            boundaries = boundaries_from plain 0
        in (if length boundaries \<le> 1 then [chunk] else cut_at chunk 0 boundaries,
            sp\<lparr>cipher := c'\<rparr>))"

text \<open>The chunks of a connection, one \<open>split\<close> call each.\<close>

fun split_chunks ::
    "'c cipher_api \<Rightarrow> 'c mtproto_message_splitter \<Rightarrow> bytes list
      \<Rightarrow> bytes list list \<times> 'c mtproto_message_splitter" where
  "split_chunks C sp [] = ([], sp)"
| "split_chunks C sp (ch # chs) =
     (let (parts, sp') = split_chunk C sp ch; (rest, sp'') = split_chunks C sp' chs
      in (parts # rest, sp''))"

text \<open>
  The free function \<open>split_plain_mtproto_messages\<close>, on plain text; the program itself does
  not call it.
\<close>

definition plain_message_end :: "bytes \<Rightarrow> nat \<Rightarrow> nat option" where
  "plain_message_end chunk pos =
     (let len = unat (chunk ! pos) in
      if len = 0 then None
      else if len = 0x7f \<and> length chunk < pos + 4 then None
      else
        let total_len =
          (if len = 0x7f
           then 4 + unat (from_le_bytes [chunk ! (pos + 1), chunk ! (pos + 2), chunk ! (pos + 3), 0] :: u32)
           else 1 + len * 4)
        in if length chunk < pos + total_len then None else Some (pos + total_len))"

lemma plain_message_end_bounds:
  "plain_message_end chunk pos = Some p \<Longrightarrow> pos < p \<and> p \<le> length chunk"
  by (auto simp: plain_message_end_def Let_def split: if_splits)

function plain_parts_from :: "bytes \<Rightarrow> nat \<Rightarrow> bytes list" where
  "plain_parts_from chunk pos =
     (if pos < length chunk
      then (case plain_message_end chunk pos of
              None \<Rightarrow> []
            | Some p \<Rightarrow> slice pos p chunk # plain_parts_from chunk p)
      else [])"
  by pat_completeness auto
termination
  by (relation "measure (\<lambda>(chunk, pos). length chunk - pos)") (auto dest: plain_message_end_bounds)

declare plain_parts_from.simps [simp del]

definition split_plain_mtproto_messages :: "bytes \<Rightarrow> bytes list" where
  "split_plain_mtproto_messages chunk =
     (let parts = plain_parts_from chunk 0 in if parts = [] then [chunk] else parts)"

section \<open>Cutting loses nothing\<close>

text \<open>
  The contract the relay relies on: whatever the splitter does with a chunk, its parts in
  order are the chunk.
\<close>

locale chunk_splitter =
  fixes split_op :: "'s \<Rightarrow> bytes \<Rightarrow> bytes list \<times> 's"
  assumes split_concat: "concat (fst (split_op s chunk)) = chunk"
begin

primrec run_split :: "'s \<Rightarrow> bytes list \<Rightarrow> bytes list" where
  "run_split s [] = []"
| "run_split s (ch # chs) = fst (split_op s ch) @ run_split (snd (split_op s ch)) chs"

lemma run_split_concat: "concat (run_split s chs) = concat chs"
  by (induction chs arbitrary: s) (simp_all add: split_concat)

end

lemma boundaries_from_bounds:
  "p \<in> set (boundaries_from plain pos) \<Longrightarrow> pos < p \<and> p \<le> length plain"
proof (induction plain pos rule: boundaries_from.induct)
  case (1 plain pos)
  have unf: "boundaries_from plain pos = (if pos < length plain then
      (case message_end plain pos of None \<Rightarrow> [] | Some p \<Rightarrow> p # boundaries_from plain p) else [])"
    by (rule boundaries_from.simps)
  from "1.prems" obtain q where q: "pos < length plain" "message_end plain pos = Some q"
    and p: "p = q \<or> p \<in> set (boundaries_from plain q)"
    unfolding unf by (cases "pos < length plain"; cases "message_end plain pos") auto
  from message_end_bounds [OF q(2)] have "pos < q" "q \<le> length plain" by simp_all
  with p "1.IH" [OF q] show ?case by auto
qed

lemma boundaries_from_sorted: "sorted_wrt (<) (boundaries_from plain pos)"
proof (induction plain pos rule: boundaries_from.induct)
  case (1 plain pos)
  then show ?case
    by (subst boundaries_from.simps)
      (auto split: option.splits dest: boundaries_from_bounds)
qed

lemma cut_at_concat:
  assumes "sorted_wrt (<) ends" "\<forall>p \<in> set ends. prev < p \<and> p \<le> length chunk"
  shows "concat (cut_at chunk prev ends) = drop prev chunk"
  using assms
proof (induction chunk prev ends rule: cut_at.induct)
  case (1 chunk prev)
  then show ?case by simp
next
  case (2 chunk prev e es)
  have IH: "concat (cut_at chunk e es) = drop e chunk" using 2 by simp
  have "prev < e" using 2 by simp
  have "slice prev e chunk @ drop e chunk = drop prev chunk"
    unfolding slice_def using \<open>prev < e\<close>
    by (metis append_take_drop_id drop_drop le_add_diff_inverse2 less_imp_le)
  then show ?case by (simp add: IH)
qed

lemma cut_at_lengths:
  assumes "sorted_wrt (<) ends" "\<forall>p \<in> set ends. prev < p \<and> p \<le> length chunk"
  shows "\<forall>part \<in> set (cut_at chunk prev ends). part \<noteq> []"
  using assms
  by (induction chunk prev ends rule: cut_at.induct) (auto simp: slice_def)

context stream_cipher
begin

lemma split_chunk_concat: "concat (fst (split_chunk C sp chunk)) = chunk"
proof -
  let ?plain = "fst (apply_keystream C (cipher sp) chunk)"
  have "concat (cut_at chunk 0 (boundaries_from ?plain 0)) = drop 0 chunk"
    by (rule cut_at_concat) (use boundaries_from_sorted boundaries_from_bounds in fastforce)+
  then show ?thesis by (simp add: split_chunk_def Let_def case_prod_beta)
qed

lemma split_chunk_parts_nonempty:
  assumes "chunk \<noteq> []" "part \<in> set (fst (split_chunk C sp chunk))"
  shows "part \<noteq> []"
proof -
  let ?plain = "fst (apply_keystream C (cipher sp) chunk)"
  have "\<forall>part \<in> set (cut_at chunk 0 (boundaries_from ?plain 0)). part \<noteq> []"
    by (rule cut_at_lengths) (use boundaries_from_sorted boundaries_from_bounds in fastforce)+
  then show ?thesis
    using assms by (auto simp: split_chunk_def Let_def case_prod_beta split: if_splits)
qed

lemma split_chunk_advance:
  "ks (cipher (snd (split_chunk C sp chunk))) i = ks (cipher sp) (length chunk + i)"
  using apply_advance [of "cipher sp" chunk i]
  by (simp add: split_chunk_def Let_def case_prod_beta)

lemma split_chunks_advance:
  "ks (cipher (snd (split_chunks C sp chs))) i = ks (cipher sp) (length (concat chs) + i)"
proof (induction chs arbitrary: sp i)
  case Nil
  then show ?case by simp
next
  case (Cons ch chs)
  then show ?case
    by (simp add: Let_def case_prod_beta split_chunk_advance add.assoc add.left_commute)
qed

end

sublocale stream_cipher \<subseteq> splitting: chunk_splitter "split_chunk C"
  by unfold_locales (rule split_chunk_concat)

section \<open>Abridged messages\<close>

text \<open>
  MTProto abridged framing, as the splitter reads it: the payload length in words is one
  byte when it is below 127, and the byte 127 and three little-endian bytes otherwise.
\<close>

definition abridged :: "bytes \<Rightarrow> bytes" where
  "abridged p =
     (let n = length p div 4
      in if n < 0x7f then word_of_nat n # p
         else [0x7f, word_of_nat n, word_of_nat (n div 256), word_of_nat (n div 65536)] @ p)"

definition wf_payload :: "bytes \<Rightarrow> bool" where
  "wf_payload p \<longleftrightarrow> p \<noteq> [] \<and> length p mod 4 = 0 \<and> length p div 4 < 2 ^ 24"

lemma three_bytes:
  assumes "n < 2 ^ 24"
  shows "(n mod 256) OR push_bit 8 (n div 256 mod 256) OR push_bit 16 (n div 65536 mod 256) = (n :: nat)"
proof -
  have "take_bit 24 n = n" using assms by (simp add: take_bit_nat_eq_self)
  then have hi: "bit n i \<Longrightarrow> i < 24" for i by (metis bit_take_bit_iff)
  have "take_bit 8 n OR push_bit 8 (take_bit 8 (drop_bit 8 n)) OR push_bit 16 (take_bit 8 (drop_bit 16 n)) = n"
  proof (rule bit_eqI)
    fix i :: nat
    consider "i < 8" | j where "i = 8 + j" "j < 8" | j where "i = 16 + j"
    proof (cases "i < 16")
      case True
      then show ?thesis using that(1,2) by (cases "i < 8") (auto dest!: le_Suc_ex simp: not_less)
    next
      case False
      then show ?thesis using that(3) by (auto dest!: le_Suc_ex simp: not_less)
    qed
    then show "bit (take_bit 8 n OR push_bit 8 (take_bit 8 (drop_bit 8 n))
        OR push_bit 16 (take_bit 8 (drop_bit 16 n))) i = bit n i"
      by cases (auto simp: bit_simps dest: hi)
  qed
  then show ?thesis by (simp add: take_bit_eq_mod drop_bit_eq_div)
qed

lemma message_end_abridged:
  assumes "wf_payload p"
  shows "message_end (pre @ abridged p @ rest) (length pre) = Some (length pre + length (abridged p))"
proof -
  define n where "n = length p div 4"
  have n: "0 < n" "n < 2 ^ 24" "n * 4 = length p" "p \<noteq> []"
    using assms by (auto simp: wf_payload_def n_def div_greater_zero_iff mod_eq_0_iff_dvd dvd_imp_le)
  show ?thesis
  proof (cases "n < 0x7f")
    case True
    have "word_of_nat n \<noteq> (0x7f :: byte)"
    proof
      assume "word_of_nat n = (0x7f :: byte)"
      then have "unat (word_of_nat n :: byte) = 127" by (simp only:) simp
      with True show False by simp
    qed
    with True n show ?thesis
      by (simp add: message_end_def abridged_def n_def [symmetric] nth_append Let_def)
  next
    case False
    with n three_bytes [OF n(2)] show ?thesis
      by (simp add: message_end_def abridged_def n_def [symmetric] nth_append Let_def)
  qed
qed


lemma abridged_ne [simp]: "abridged p \<noteq> []"
  by (simp add: abridged_def Let_def)

fun ends_from :: "nat \<Rightarrow> nat list \<Rightarrow> nat list" where
  "ends_from pos [] = []"
| "ends_from pos (n # ns) = (pos + n) # ends_from (pos + n) ns"

lemma boundaries_abridged:
  assumes "\<forall>p \<in> set ps. wf_payload p"
  shows "boundaries_from (pre @ concat (map abridged ps)) (length pre)
    = ends_from (length pre) (map (\<lambda>p. length (abridged p)) ps)"
  using assms
proof (induction ps arbitrary: pre)
  case Nil
  then show ?case by (simp add: boundaries_from.simps)
next
  case (Cons p ps)
  have "message_end (pre @ abridged p @ concat (map abridged ps)) (length pre)
      = Some (length pre + length (abridged p))"
    using Cons.prems by (intro message_end_abridged) simp
  moreover have "boundaries_from ((pre @ abridged p) @ concat (map abridged ps)) (length (pre @ abridged p))
      = ends_from (length (pre @ abridged p)) (map (\<lambda>p. length (abridged p)) ps)"
    using Cons.prems by (intro Cons.IH) simp
  ultimately show ?case
    using boundaries_from.simps [of "pre @ abridged p @ concat (map abridged ps)" "length pre"] by simp
qed

lemma cut_at_ends_from:
  assumes "pos + sum_list ns = length chunk"
  shows "map length (cut_at chunk pos (ends_from pos ns)) = ns"
  using assms by (induction ns arbitrary: pos) (auto simp: min_def)

context stream_cipher
begin

lemma split_chunk_abridged:
  assumes "\<forall>p \<in> set ps. wf_payload p" "ps \<noteq> []"
    and "fst (apply_keystream C (cipher sp) chunk) = concat (map abridged ps)"
  shows "map length (fst (split_chunk C sp chunk)) = map (\<lambda>p. length (abridged p)) ps"
proof -
  have bs: "boundaries_from (concat (map abridged ps)) 0 = ends_from 0 (map (\<lambda>p. length (abridged p)) ps)"
    using boundaries_abridged [OF assms(1), of "[]"] by simp
  have "length chunk = length (concat (map abridged ps))"
    using apply_length [of "cipher sp" chunk] assms(3) by simp
  then have len: "0 + sum_list (map (\<lambda>p. length (abridged p)) ps) = length chunk"
    by (simp add: length_concat comp_def)
  have ln: "length (ends_from n ns) = length ns" for n ns by (induction ns arbitrary: n) simp_all
  have ne: "chunk \<noteq> []"
    using assms(2) len by (cases ps) auto
  show ?thesis
  proof (cases "length ps \<le> 1")
    case True
    with assms(2) obtain p where "ps = [p]" by (cases ps) auto
    with len ne bs assms(3) show ?thesis by (simp add: split_chunk_def Let_def case_prod_beta)
  next
    case False
    then show ?thesis
      using ne cut_at_ends_from [OF len]
      by (simp add: split_chunk_def Let_def case_prod_beta assms(3) bs ln)
  qed
qed

end

section \<open>Properties\<close>

text \<open>
  Splitting loses, duplicates and reorders nothing: the parts of a chunk, concatenated,
  are the chunk, and a non-empty chunk has no empty part.
\<close>

theorem split_chunk_lossless:
  assumes "stream_cipher C ks"
  shows "concat (fst (split_chunk C sp chunk)) = chunk
    \<and> (chunk \<noteq> [] \<longrightarrow> [] \<notin> set (fst (split_chunk C sp chunk)))"
  using stream_cipher.split_chunk_concat [OF assms]
    stream_cipher.split_chunk_parts_nonempty [OF assms, of chunk "[]"] by blast

theorem split_chunk_lossless_witness:
  "concat (fst (split_chunk (ctr_api demo_block) \<lparr>cipher = demo_cipher\<rparr> [1, 2, 3])) = [1, 2, 3]
    \<and> [] \<notin> set (fst (split_chunk (ctr_api demo_block) \<lparr>cipher = demo_cipher\<rparr> [1, 2, 3]))"
  using split_chunk_lossless [OF ctr.stream_cipher_axioms, of demo_block "\<lparr>cipher = demo_cipher\<rparr>" "[1, 2, 3]"]
  by simp

text \<open>
  C18. If a chunk is the encipherment, at the splitter's keystream position, of a sequence
  of whole abridged MTProto messages, it is cut exactly at the message boundaries: the parts
  are consecutive pieces of the chunk itself, one per message and of the message's length.
\<close>

theorem split_chunk_messages:
  assumes "stream_cipher C ks" "ps \<noteq> []" "\<forall>p \<in> set ps. wf_payload p"
    and "chunk = xor_with (ks (cipher sp)) (concat (map abridged ps))"
  shows "map length (fst (split_chunk C sp chunk)) = map (\<lambda>p. length (abridged p)) ps
    \<and> concat (fst (split_chunk C sp chunk)) = chunk"
proof -
  have "fst (apply_keystream C (cipher sp) chunk) = concat (map abridged ps)"
    using assms(4) by (simp add: stream_cipher.apply_data [OF assms(1)])
  then show ?thesis
    using stream_cipher.split_chunk_abridged [OF assms(1,3,2)] stream_cipher.split_chunk_concat [OF assms(1)]
    by blast
qed

theorem split_chunk_messages_witness:
  "let chunk = xor_with (ctr_keystream demo_block demo_cipher)
       (concat (map abridged [[1, 2, 3, 4], [5, 6, 7, 8, 9, 10, 11, 12]]));
     parts = fst (split_chunk (ctr_api demo_block) \<lparr>cipher = demo_cipher\<rparr> chunk)
   in map length parts = [5, 9] \<and> concat parts = chunk"
  using split_chunk_messages [OF ctr.stream_cipher_axioms, of "[[1, 2, 3, 4], [5, 6, 7, 8, 9, 10, 11, 12]]"
      _ demo_block "\<lparr>cipher = demo_cipher\<rparr>"]
  by (simp add: wf_payload_def abridged_def Let_def)

text \<open>
  C19. The splitter stays in step with the client's cipher: after any sequence of chunks its
  keystream position is 64 (the init packet) plus the number of bytes relayed.
\<close>

theorem splitter_synchronised:
  assumes "stream_cipher C ks" "splitter_new C init_data = Some sp"
    and "new_from_slices C (slice 8 40 init_data) (slice 40 56 init_data) = Some c"
  shows "ks (cipher (snd (split_chunks C sp chs))) i = ks c (64 + length (concat chs) + i)"
proof -
  have "cipher sp = snd (apply_keystream C c (replicate 64 0))"
    using assms(2,3) by (auto simp: splitter_new_def Let_def split: if_splits)
  then show ?thesis
    by (simp add: stream_cipher.split_chunks_advance [OF assms(1)]
        stream_cipher.apply_advance [OF assms(1)] add.assoc)
qed

theorem splitter_synchronised_witness:
  "\<exists>sp. splitter_new (ctr_api demo_block) (demo_prefix @ replicate 8 0) = Some sp
    \<and> (\<forall>i. ctr_keystream demo_block (cipher (snd (split_chunks (ctr_api demo_block) sp [[1, 2], [3]]))) i
        = ctr_keystream demo_block demo_cipher (64 + 3 + i))"
proof -
  have new: "new_from_slices (ctr_api demo_block) (slice 8 40 (demo_prefix @ replicate 8 0))
      (slice 40 56 (demo_prefix @ replicate 8 0)) = Some demo_cipher"
    by code_simp
  moreover have "length (demo_prefix @ replicate 8 0) = 64" by code_simp
  ultimately obtain sp where sp: "splitter_new (ctr_api demo_block) (demo_prefix @ replicate 8 0) = Some sp"
    by (simp add: splitter_new_def Let_def)
  show ?thesis
    using splitter_synchronised [OF ctr.stream_cipher_axioms sp new, of "[[1, 2], [3]]"] sp by simp
qed

lemma boundaries_header:
  assumes "wf_payload p"
  shows "\<exists>h. abridged p = h @ p \<and> h \<noteq> [] \<and> boundaries_from h 0 = []"
proof -
  have e: "message_end (abridged p) 0 = Some (length (abridged p))"
    using message_end_abridged [OF assms, of "[]" "[]"] by simp
  have p: "p \<noteq> []" using assms by (simp add: wf_payload_def)
  obtain h where h: "abridged p = h @ p" "h = [hd h] \<and> hd h \<noteq> 0x7f \<or> length h = 4 \<and> hd h = 0x7f"
  proof (cases "length p div 4 < 0x7f")
    case True
    have "word_of_nat (length p div 4) \<noteq> (0x7f :: byte)"
    proof
      assume "word_of_nat (length p div 4) = (0x7f :: byte)"
      then have "unat (word_of_nat (length p div 4) :: byte) = 127" by (simp only:) simp
      with True show False by simp
    qed
    with True show ?thesis by (intro that [of "[word_of_nat (length p div 4)]"]) (simp_all add: abridged_def Let_def)
  next
    case False
    let ?n = "length p div 4"
    from False show ?thesis
      by (intro that [of "[0x7f, word_of_nat ?n, word_of_nat (?n div 256), word_of_nat (?n div 65536)]"])
        (simp_all add: abridged_def Let_def)
  qed
  then have ne: "h \<noteq> []" by auto
  have same: "h ! i = abridged p ! i" if "i < length h" for i using that h(1) by (simp add: nth_append)
  have "message_end h 0 = None"
    using h(2)
  proof
    assume s: "h = [hd h] \<and> hd h \<noteq> 0x7f"
    then have "h ! 0 \<noteq> 0x7f" by (metis nth_Cons_0)
    moreover have "length h = 1" using s by (metis One_nat_def length_Cons list.size(3))
    ultimately show ?thesis by (auto simp: message_end_def Let_def)
  next
    assume s: "length h = 4 \<and> hd h = 0x7f"
    then show ?thesis using ne by (auto simp: message_end_def Let_def hd_conv_nth)
  qed
  with ne have "boundaries_from h 0 = []" by (simp add: boundaries_from.simps [of h])
  with h(1) ne show ?thesis by blast
qed

text \<open>
  C37. The splitter forgets where a message began once a read ends inside it: a message whose payload
  itself reads like a sequence of two or more abridged messages is one part when it arrives in one
  read, but when the first read takes exactly its header, the second is cut inside the message, at
  every boundary of the sequence.
\<close>

theorem split_forgets_partial_message:
  assumes "stream_cipher C ks" "2 \<le> length ps" "\<forall>p \<in> set ps. wf_payload p"
    and "payload = concat (map abridged ps)" "wf_payload payload"
    and "ct = xor_with (ks (cipher sp)) (abridged payload)" "k = length ct - length payload"
  shows "map length (fst (split_chunk C sp ct)) = [length ct]
    \<and> map (map length) (fst (split_chunks C sp [take k ct, drop k ct])) = [[k], map (\<lambda>p. length (abridged p)) ps]"
proof
  let ?k = "ks (cipher sp)"
  have whole: "fst (apply_keystream C (cipher sp) ct) = concat (map abridged [payload])"
    by (simp add: assms(6) stream_cipher.apply_data [OF assms(1)])
  show "map length (fst (split_chunk C sp ct)) = [length ct]"
    using stream_cipher.split_chunk_abridged [OF assms(1) _ _ whole] assms(5,6) by simp
  obtain h where h: "abridged payload = h @ payload" "h \<noteq> []" "boundaries_from h 0 = []"
    using boundaries_header [OF assms(5)] by blast
  let ?k' = "\<lambda>i. ?k (length h + i)"
  have k: "k = length h" using assms(6,7) h(1) by simp
  have ct: "take k ct = xor_with ?k h" "drop k ct = xor_with ?k' payload"
    unfolding assms(6) h(1) xor_with_append k by simp_all
  obtain parts sp' where s1: "split_chunk C sp (take k ct) = (parts, sp')" by fastforce
  have "fst (apply_keystream C (cipher sp) (take k ct)) = h"
    by (simp add: stream_cipher.apply_data [OF assms(1)] ct(1))
  moreover have "take k ct \<noteq> []" "length (take k ct) = k" using h(2) unfolding ct by (simp_all add: k)
  ultimately have "map length (fst (split_chunk C sp (take k ct))) = [k]"
    using h(3) by (simp add: split_chunk_def Let_def case_prod_beta)
  then have "map length parts = [k]" by (simp add: s1)
  moreover have "ks (cipher sp') = ?k'"
    using stream_cipher.split_chunk_advance [OF assms(1), of sp "take k ct"] s1
    by (intro ext) (simp add: ct)
  then have "fst (apply_keystream C (cipher sp') (drop k ct)) = concat (map abridged ps)"
    by (simp add: stream_cipher.apply_data [OF assms(1)] ct(2) assms(4))
  then have "map length (fst (split_chunk C sp' (drop k ct))) = map (\<lambda>p. length (abridged p)) ps"
    using assms(2,3) by (intro stream_cipher.split_chunk_abridged [OF assms(1)]) auto
  ultimately show "map (map length) (fst (split_chunks C sp [take k ct, drop k ct]))
      = [[k], map (\<lambda>p. length (abridged p)) ps]"
    by (simp add: s1 case_prod_beta)
qed

theorem split_forgets_partial_message_witness:
  "let ct = xor_with (ctr_keystream demo_block demo_cipher) (abridged (concat (replicate 4 (abridged [1, 2, 3, 4]))))
   in map (map length) (fst (split_chunks (ctr_api demo_block) \<lparr>cipher = demo_cipher\<rparr> [take 1 ct, drop 1 ct]))
        = [[1], [5, 5, 5, 5]]"
proof -
  let ?ps = "replicate 4 [1, 2, 3, 4] :: bytes list"
  define p where "p = concat (map abridged ?ps)"
  have "length (concat (map abridged ?ps)) = 20" by code_simp
  then have w: "2 \<le> length ?ps" "\<forall>p \<in> set ?ps. wf_payload p" "length p = 20"
    by (simp_all add: wf_payload_def p_def)
  have wp: "wf_payload p" using w(3) by (cases p) (simp_all add: wf_payload_def)
  have l: "map (\<lambda>p. length (abridged p)) ?ps = [5, 5, 5, 5]" by code_simp
  define ct where "ct = xor_with (ctr_keystream demo_block demo_cipher) (abridged p)"
  have a: "length ct - length p = 1" using w(3) by (simp add: ct_def abridged_def Let_def)
  have p: "concat (replicate 4 (abridged [1, 2, 3, 4])) = p" by (simp add: p_def)
  have "ct = xor_with (ctr_keystream demo_block (cipher \<lparr>cipher = demo_cipher\<rparr>)) (abridged p)" by (simp add: ct_def)
  from split_forgets_partial_message [OF ctr.stream_cipher_axioms w(1,2) p_def wp this a [symmetric]]
  have "map (map length) (fst (split_chunks (ctr_api demo_block) \<lparr>cipher = demo_cipher\<rparr> [take 1 ct, drop 1 ct]))
      = [[1], [5, 5, 5, 5]]"
    unfolding l by (rule conjunct2)
  then show ?thesis unfolding p Let_def ct_def [symmetric] .
qed

lemma plain_parts_prefix: "\<exists>rest. drop pos chunk = concat (plain_parts_from chunk pos) @ rest"
proof (induction chunk pos rule: plain_parts_from.induct)
  case (1 chunk pos)
  show ?case
  proof (cases "pos < length chunk \<and> plain_message_end chunk pos \<noteq> None")
    case True
    then obtain p where p: "pos < length chunk" "plain_message_end chunk pos = Some p" by auto
    from 1 [OF p] obtain rest where "drop p chunk = concat (plain_parts_from chunk p) @ rest" by blast
    moreover have "pos < p" using plain_message_end_bounds [OF p(2)] by simp
    then have "drop pos chunk = slice pos p chunk @ drop p chunk"
      unfolding slice_def by (metis append_take_drop_id drop_drop le_add_diff_inverse2 less_imp_le)
    ultimately show ?thesis
      using p by (simp add: plain_parts_from.simps [of chunk pos])
  next
    case False
    then have "plain_parts_from chunk pos = []"
      by (auto simp: plain_parts_from.simps [of chunk pos] split: option.splits)
    then show ?thesis by simp
  qed
qed

text \<open>
  \<open>split_plain_mtproto_messages\<close> returns consecutive pieces from the start of the chunk,
  but unlike the stateful splitter it can drop what follows the last whole message: its
  result is only a prefix of the chunk, and properly so on the example.
\<close>

theorem split_plain_prefix:
  "(\<exists>rest. chunk = concat (split_plain_mtproto_messages chunk) @ rest)
    \<and> concat (split_plain_mtproto_messages [1, 10, 11, 12, 13, 9]) = [1, 10, 11, 12, 13]"
proof
  show "\<exists>rest. chunk = concat (split_plain_mtproto_messages chunk) @ rest"
    using plain_parts_prefix [of 0 chunk] by (simp add: split_plain_mtproto_messages_def Let_def)
  show "concat (split_plain_mtproto_messages [1, 10, 11, 12, 13, 9]) = [1, 10, 11, 12, 13]"
    by code_simp
qed

end
