(* ===== verification/Io_Stream.thy ===== *)
theory Io_Stream
  imports Prelude
begin

text \<open>
  The byte streams the program talks over (\<open>AsyncRead + AsyncWrite\<close>) and the outcome of an
  asynchronous computation on one. A stream is described by what its peer does: the bytes
  \<open>rx\<close> that still arrive and how the arrival ends (the peer closes, an error, or silence on
  an open connection); by how many more bytes it accepts (\<open>tx_room\<close>, \<open>None\<close> for any number)
  and what a write beyond them meets: an error, or a peer that has stopped reading, so that the
  write waits for ever (back-pressure); and by how a shutdown of the sending side goes. \<open>tx\<close>
  collects what has been written. \<open>read_exact\<close>, \<open>write_all\<close> and \<open>shutdown\<close> follow the contracts
  of the \<open>AsyncReadExt\<close> and \<open>AsyncWriteExt\<close> methods; a buffer of the transport layer between
  \<open>write_all\<close> and \<open>flush\<close> is not modelled, what a flush meets is met by the write before it.

  A computation ends with a value, with an error, with a panic, or never (\<open>Pending\<close>: it
  awaits bytes that do not come, or room that the peer does not make). \<open>io_bind\<close> is the
  sequencing of \<open>.await?\<close>.
\<close>

datatype io_error =
    UnexpectedEof
  | BrokenPipe
  | InvalidInput string
  | AddrNotAvailable string
  | Other string
  | Os nat

datatype rx_end = Eof | RxError io_error | Silent

datatype tx_end = TxError io_error | TxWaits

datatype shut_end = ShutOk | ShutError io_error | ShutWaits

record stream =
  rx :: bytes
  rx_end :: rx_end
  tx :: bytes
  tx_room :: "nat option"
  tx_end :: tx_end
  tx_shut :: bool
  on_shutdown :: shut_end

datatype ('a, 'e) outcome = Ok 'a | Err 'e | Panic string | Pending

type_synonym ('s, 'a, 'e) io = "'s \<Rightarrow> ('a, 'e) outcome \<times> 's"

definition io_ok :: "'a \<Rightarrow> ('s, 'a, 'e) io" where
  "io_ok a = (\<lambda>s. (Ok a, s))"

definition io_err :: "'e \<Rightarrow> ('s, 'a, 'e) io" where
  "io_err e = (\<lambda>s. (Err e, s))"

definition io_panic :: "string \<Rightarrow> ('s, 'a, 'e) io" where
  "io_panic m = (\<lambda>s. (Panic m, s))"

definition io_bind :: "('s, 'a, 'e) io \<Rightarrow> ('a \<Rightarrow> ('s, 'b, 'e) io) \<Rightarrow> ('s, 'b, 'e) io" where
  "io_bind m f = (\<lambda>s. case m s of
      (Ok a, s') \<Rightarrow> f a s'
    | (Err e, s') \<Rightarrow> (Err e, s')
    | (Panic p, s') \<Rightarrow> (Panic p, s')
    | (Pending, s') \<Rightarrow> (Pending, s'))"

text \<open>\<open>map_err\<close> on the awaited result, and \<open>let _ = \<dots>\<close>, which drops an error.\<close>

definition io_map_err :: "('e \<Rightarrow> 'f) \<Rightarrow> ('s, 'a, 'e) io \<Rightarrow> ('s, 'a, 'f) io" where
  "io_map_err g m = (\<lambda>s. case m s of
      (Ok a, s') \<Rightarrow> (Ok a, s')
    | (Err e, s') \<Rightarrow> (Err (g e), s')
    | (Panic p, s') \<Rightarrow> (Panic p, s')
    | (Pending, s') \<Rightarrow> (Pending, s'))"

definition io_ignore :: "('s, 'a, 'e) io \<Rightarrow> ('s, unit, 'f) io" where
  "io_ignore m = (\<lambda>s. case m s of
      (Ok _, s') \<Rightarrow> (Ok (), s')
    | (Err _, s') \<Rightarrow> (Ok (), s')
    | (Panic p, s') \<Rightarrow> (Panic p, s')
    | (Pending, s') \<Rightarrow> (Pending, s'))"

section \<open>Reading and writing\<close>

text \<open>What a read gets once the arriving bytes are used up; \<open>on_eof\<close> at the end of the stream.\<close>

definition at_rx_end :: "stream \<Rightarrow> ('a, io_error) outcome \<Rightarrow> ('a, io_error) outcome" where
  "at_rx_end s on_eof = (case rx_end s of Eof \<Rightarrow> on_eof | RxError e \<Rightarrow> Err e | Silent \<Rightarrow> Pending)"

definition read_exact :: "nat \<Rightarrow> (stream, bytes, io_error) io" where
  "read_exact n = (\<lambda>s.
     if n \<le> length (rx s) then (Ok (take n (rx s)), s\<lparr>rx := drop n (rx s)\<rparr>)
     else (at_rx_end s (Err UnexpectedEof), s\<lparr>rx := []\<rparr>))"

text \<open>\<open>read\<close> into a buffer of one byte: \<open>None\<close> is the result 0 at the end of the stream.\<close>

definition read_byte :: "(stream, byte option, io_error) io" where
  "read_byte = (\<lambda>s. case rx s of
      [] \<Rightarrow> (at_rx_end s (Ok None), s)
    | b # bs \<Rightarrow> (Ok (Some b), s\<lparr>rx := bs\<rparr>))"

definition write_all :: "bytes \<Rightarrow> (stream, unit, io_error) io" where
  "write_all bs = (\<lambda>s.
     if bs = [] then (Ok (), s)
     else if tx_shut s then (Err BrokenPipe, s)
     else case tx_room s of
       None \<Rightarrow> (Ok (), s\<lparr>tx := tx s @ bs\<rparr>)
     | Some n \<Rightarrow>
         if length bs \<le> n
         then (Ok (), s\<lparr>tx := tx s @ bs, tx_room := Some (n - length bs)\<rparr>)
         else (case tx_end s of TxError e \<Rightarrow> Err e | TxWaits \<Rightarrow> Pending,
               s\<lparr>tx := tx s @ take n bs, tx_room := Some 0\<rparr>))"

definition flush :: "(stream, unit, io_error) io" where
  "flush = io_ok ()"

text \<open>Whatever the result of a shutdown, the sending side takes no more bytes.\<close>

definition shutdown :: "(stream, unit, io_error) io" where
  "shutdown = (\<lambda>s.
     (case on_shutdown s of ShutOk \<Rightarrow> Ok () | ShutError e \<Rightarrow> Err e | ShutWaits \<Rightarrow> Pending,
      s\<lparr>tx_shut := True\<rparr>))"

text \<open>A stream whose writes all succeed, and one whose shutdown succeeds.\<close>

definition writable :: "stream \<Rightarrow> bool" where
  "writable s \<longleftrightarrow> tx_room s = None \<and> \<not> tx_shut s"

definition shuts_down :: "stream \<Rightarrow> bool" where
  "shuts_down s \<longleftrightarrow> on_shutdown s = ShutOk"

definition open_stream :: "bytes \<Rightarrow> rx_end \<Rightarrow> stream" where
  "open_stream bs e = \<lparr>rx = bs, rx_end = e, tx = [], tx_room = None, tx_end = TxError BrokenPipe,
     tx_shut = False, on_shutdown = ShutOk\<rparr>"

section \<open>Lemmas\<close>

named_theorems io_simps

lemma io_ok_run [simp]: "io_ok a s = (Ok a, s)"
  by (simp add: io_ok_def)

lemma io_err_run [simp]: "io_err e s = (Err e, s)"
  by (simp add: io_err_def)

lemma io_panic_run [simp]: "io_panic p s = (Panic p, s)"
  by (simp add: io_panic_def)

lemma flush_run [simp]: "flush s = (Ok (), s)"
  by (simp add: flush_def)

lemma io_bind_Ok [simp]: "m s = (Ok a, s') \<Longrightarrow> io_bind m f s = f a s'"
  by (simp add: io_bind_def)

lemma io_bind_Err [simp]: "m s = (Err e, s') \<Longrightarrow> io_bind m f s = (Err e, s')"
  by (simp add: io_bind_def)

lemma io_bind_Pending [simp]: "m s = (Pending, s') \<Longrightarrow> io_bind m f s = (Pending, s')"
  by (simp add: io_bind_def)

lemma io_bind_Panic [simp]: "m s = (Panic p, s') \<Longrightarrow> io_bind m f s = (Panic p, s')"
  by (simp add: io_bind_def)

lemma io_bind_assoc: "io_bind (io_bind m f) g = io_bind m (\<lambda>a. io_bind (f a) g)"
  by (rule ext) (simp add: io_bind_def split: prod.split outcome.split)

lemma io_map_err_Ok [simp]: "m s = (Ok a, s') \<Longrightarrow> io_map_err g m s = (Ok a, s')"
  by (simp add: io_map_err_def)

lemma io_map_err_Err [simp]: "m s = (Err e, s') \<Longrightarrow> io_map_err g m s = (Err (g e), s')"
  by (simp add: io_map_err_def)

lemma io_bind_OkE:
  assumes "io_bind m f s = (Ok b, s'')"
  obtains a s' where "m s = (Ok a, s')" and "f a s' = (Ok b, s'')"
  using assms by (auto simp: io_bind_def split: prod.splits outcome.splits)

lemma io_map_err_OkE:
  assumes "io_map_err g m s = (Ok a, s')"
  shows "m s = (Ok a, s')"
  using assms by (auto simp: io_map_err_def split: prod.splits outcome.splits)

lemma read_exact_Ok:
  "n \<le> length (rx s) \<Longrightarrow> read_exact n s = (Ok (take n (rx s)), s\<lparr>rx := drop n (rx s)\<rparr>)"
  by (simp add: read_exact_def)

lemma read_exact_append [io_simps]:
  "rx s = xs @ ys \<Longrightarrow> length xs = n \<Longrightarrow> read_exact n s = (Ok xs, s\<lparr>rx := ys\<rparr>)"
  by (auto simp: read_exact_def)

lemma read_exact_OkD:
  "read_exact n s = (Ok bs, s') \<Longrightarrow> length bs = n \<and> rx s = bs @ rx s' \<and> s' = s\<lparr>rx := rx s'\<rparr>"
  by (auto simp: read_exact_def at_rx_end_def split: if_splits rx_end.splits)

lemma write_all_writable [simp]:
  "writable s \<Longrightarrow> write_all bs s = (Ok (), s\<lparr>tx := tx s @ bs\<rparr>)"
  by (simp add: writable_def write_all_def)

lemma writable_update [simp]:
  "writable (s\<lparr>rx := x\<rparr>) = writable s"
  "writable (s\<lparr>tx := y\<rparr>) = writable s"
  by (simp_all add: writable_def)

lemma writable_open_stream [simp]: "writable (open_stream bs e)" "shuts_down (open_stream bs e)"
  by (simp_all add: writable_def shuts_down_def open_stream_def)

lemma shutdown_ok: "shuts_down s \<Longrightarrow> shutdown s = (Ok (), s\<lparr>tx_shut := True\<rparr>)"
  by (simp add: shutdown_def shuts_down_def)

lemma shutdown_state: "snd (shutdown s) = s\<lparr>tx_shut := True\<rparr>"
  by (simp add: shutdown_def)

lemma shutdown_no_panic: "shutdown s \<noteq> (Panic p, s')"
  by (simp add: shutdown_def split: shut_end.split)

lemma write_all_OkD:
  "write_all bs s = (Ok u, s') \<Longrightarrow> tx s' = tx s @ bs \<and> rx s' = rx s \<and> rx_end s' = rx_end s"
  by (auto simp: write_all_def split: if_splits option.splits tx_end.splits)

lemma open_stream_sel [simp]:
  "rx (open_stream bs e) = bs" "rx_end (open_stream bs e) = e" "tx (open_stream bs e) = []"
  by (simp_all add: open_stream_def)

end
