(* ===== verification/Socks.thy ===== *)
theory Socks
  imports Std_Net Io_Stream
begin

text \<open>
  The SOCKS5 server side (\<open>modules/socks.rs\<close>): parsing the account list, the handshake with
  its method negotiation, the username/password sub-negotiation, the CONNECT request and
  the replies. The handshake is a computation on a stream, with one branch per early
  return of the source.
\<close>

record socks_user =
  username :: string
  password :: string

record socks_auth_config =
  users :: "socks_user list"

datatype socks_command = Connect (target_host: string) (target_port: u16)

datatype socks_error =
    UnsupportedVersion
  | NoAcceptableMethod
  | AuthenticationFailed
  | UnsupportedCommand
  | UnsupportedAddressType
  | SocksIo io_error
  | ParseError string

section \<open>Accounts\<close>

fun parse_auth_entries :: "string list \<Rightarrow> string + socks_user list" where
  "parse_auth_entries [] = Inr []"
| "parse_auth_entries (entry # es) =
     (case split_once CHR '':'' entry of
        None \<Rightarrow> Inl (''invalid SOCKS auth entry `'' @ entry @ ''`: expected user:pass'')
      | Some (u, p) \<Rightarrow>
          if u = [] then Inl ''SOCKS auth username cannot be empty''
          else if p = [] then Inl (''SOCKS auth password cannot be empty for user `'' @ u @ ''`'')
          else map_sum id ((#) \<lparr>username = u, password = p\<rparr>) (parse_auth_entries es))"

definition parse_socks_auth :: "string \<Rightarrow> string + socks_auth_config option" where
  "parse_socks_auth input =
     (let raw = trim input in
      if raw = [] then Inr None
      else
        let entries = filter (\<lambda>e. e \<noteq> [])
          (map trim (split_on (\<lambda>c. c = CHR '','' \<or> c = CHR 0x0A \<or> c = CHR '';'') raw))
        in case parse_auth_entries entries of
             Inl e \<Rightarrow> Inl e
           | Inr us \<Rightarrow> if us = [] then Inr None else Inr (Some \<lparr>users = us\<rparr>))"

section \<open>The handshake\<close>

definition sio :: "(stream, 'a, io_error) io \<Rightarrow> (stream, 'a, socks_error) io" where
  "sio m = io_map_err SocksIo m"

text \<open>
  \<open>String::from_utf8\<close> with the text of its error: the index of the first ill-formed byte,
  and how many bytes are ill-formed unless the input just ends too early.
\<close>

function utf8_error_from :: "nat \<Rightarrow> bytes \<Rightarrow> string" where
  "utf8_error_from i bs =
     (if bs = [] then []
      else if fst (utf8_next bs)
      then utf8_error_from (i + snd (utf8_next bs)) (drop (snd (utf8_next bs)) bs)
      else if snd (utf8_next bs) = length bs \<and> snd (utf8_next bs) < utf8_width (hd bs)
      then ''incomplete utf-8 byte sequence from index '' @ show_nat i
      else ''invalid utf-8 sequence of '' @ show_nat (snd (utf8_next bs))
             @ '' bytes from index '' @ show_nat i)"
  by pat_completeness auto
termination
  by (relation "measure (length \<circ> snd)") (auto simp: utf8_next_pos)

declare utf8_error_from.simps [simp del]

definition utf8_or_error :: "bytes \<Rightarrow> (stream, string, socks_error) io" where
  "utf8_or_error bs =
     (case from_utf8 bs of
        Some s \<Rightarrow> io_ok s
      | None \<Rightarrow> io_err (ParseError (utf8_error_from 0 bs)))"

definition read_auth_field :: "(stream, string, socks_error) io" where
  "read_auth_field =
     io_bind (sio (read_exact 1)) (\<lambda>len.
     io_bind (sio (read_exact (unat (len ! 0)))) utf8_or_error)"

definition authenticate_user :: "socks_auth_config \<Rightarrow> (stream, unit, socks_error) io" where
  "authenticate_user auth =
     io_bind (sio (read_exact 1)) (\<lambda>version.
     if version ! 0 \<noteq> 0x01
     then io_bind (io_ignore (write_all [0x01, 0x01])) (\<lambda>_. io_err AuthenticationFailed)
     else
       io_bind read_auth_field (\<lambda>name.
       io_bind read_auth_field (\<lambda>pass.
         let accepted = list_ex (\<lambda>user. username user = name \<and> password user = pass) (users auth);
             status = (if accepted then 0x00 else 0x01)
         in io_bind (sio (write_all [0x01, status])) (\<lambda>_.
            if accepted then io_ok () else io_err AuthenticationFailed))))"

definition read_target_address :: "byte \<Rightarrow> (stream, string, socks_error) io" where
  "read_target_address atyp =
     (if atyp = 0x01 then
        io_bind (sio (read_exact 4)) (\<lambda>addr. io_ok (ipv4_to_string (from_be_bytes addr)))
      else if atyp = 0x03 then
        io_bind (sio (read_exact 1)) (\<lambda>len.
        io_bind (sio (read_exact (unat (len ! 0)))) utf8_or_error)
      else if atyp = 0x04 then
        io_bind (sio (read_exact 16)) (\<lambda>addr. io_ok (ipv6_to_string (from_be_bytes addr)))
      else io_err UnsupportedAddressType)"

definition read_request :: "(stream, socks_command, socks_error) io" where
  "read_request =
     io_bind (sio (read_exact 4)) (\<lambda>req.
     if req ! 0 \<noteq> 0x05 \<or> req ! 1 \<noteq> 0x01 \<or> req ! 2 \<noteq> 0x00
     then io_bind (sio (write_all [0x05, 0x07, 0x00, 0x01, 0, 0, 0, 0, 0, 0]))
            (\<lambda>_. io_err UnsupportedCommand)
     else
       io_bind (read_target_address (req ! 3)) (\<lambda>target.
       io_bind (sio (read_exact 2)) (\<lambda>port.
       io_bind (sio (write_all [0x05, 0x00, 0x00, 0x01, 0, 0, 0, 0, 0, 0])) (\<lambda>_.
         io_ok (Connect target (from_be_bytes port))))))"

definition handle_socks5_handshake ::
    "socks_auth_config option \<Rightarrow> (stream, socks_command, socks_error) io" where
  "handle_socks5_handshake auth =
     io_bind (sio (read_exact 2)) (\<lambda>hdr.
     if hdr ! 0 \<noteq> 0x05 then io_err UnsupportedVersion
     else
       io_bind (sio (read_exact (unat (hdr ! 1)))) (\<lambda>methods.
         let selected_method = (if auth \<noteq> None then 0x02 else 0x00)
         in if selected_method \<notin> set methods
            then io_bind (sio (write_all [0x05, 0xFF])) (\<lambda>_. io_err NoAcceptableMethod)
            else
              io_bind (sio (write_all [0x05, selected_method])) (\<lambda>_.
              io_bind (case auth of Some a \<Rightarrow> authenticate_user a | None \<Rightarrow> io_ok ()) (\<lambda>_.
                read_request))))"

definition format_socks5_fail_reply :: "u8 \<Rightarrow> bytes" where
  "format_socks5_fail_reply reason = [0x05, reason, 0x00, 0x01, 0, 0, 0, 0, 0, 0]"

definition is_ipv6 :: "string \<Rightarrow> bool" where
  "is_ipv6 dst \<longleftrightarrow> CHR '':'' \<in> set dst"

section \<open>A client's side of the protocol\<close>

definition client_greeting :: "bytes \<Rightarrow> bytes" where
  "client_greeting methods = [0x05, word_of_nat (length methods)] @ methods"

definition auth_field :: "string \<Rightarrow> bytes" where
  "auth_field v = word_of_nat (length v) # bytes_of v"

definition client_auth :: "string \<Rightarrow> string \<Rightarrow> bytes" where
  "client_auth u p = 0x01 # auth_field u @ auth_field p"

datatype socks_target = TargetV4 u32 | TargetDomain string | TargetV6 u128

fun target_bytes :: "socks_target \<Rightarrow> bytes" where
  "target_bytes (TargetV4 a) = 0x01 # to_be_bytes 4 a"
| "target_bytes (TargetDomain d) = 0x03 # auth_field d"
| "target_bytes (TargetV6 a) = 0x04 # to_be_bytes 16 a"

fun target_text :: "socks_target \<Rightarrow> string" where
  "target_text (TargetV4 a) = ipv4_to_string a"
| "target_text (TargetDomain d) = d"
| "target_text (TargetV6 a) = ipv6_to_string a"

definition wf_field :: "string \<Rightarrow> bool" where
  "wf_field v \<longleftrightarrow> length v < 256 \<and> valid_utf8 (bytes_of v)"

fun wf_target :: "socks_target \<Rightarrow> bool" where
  "wf_target (TargetDomain d) = wf_field d"
| "wf_target _ = True"

definition client_connect :: "socks_target \<Rightarrow> u16 \<Rightarrow> bytes" where
  "client_connect t port = [0x05, 0x01, 0x00] @ target_bytes t @ to_be_bytes 2 port"

definition connect_reply :: bytes where
  "connect_reply = [0x05, 0x00, 0x00, 0x01, 0, 0, 0, 0, 0, 0]"

definition valid_login :: "socks_auth_config \<Rightarrow> string \<Rightarrow> string \<Rightarrow> bool" where
  "valid_login auth u p \<longleftrightarrow> (\<exists>user \<in> set (users auth). username user = u \<and> password user = p)"

section \<open>Running the steps\<close>

lemma sio_Ok: "m s = (Ok a, s') \<Longrightarrow> sio m s = (Ok a, s')"
  by (simp add: sio_def)

lemma sio_read [io_simps]:
  "rx s = xs @ ys \<Longrightarrow> length xs = n \<Longrightarrow> sio (read_exact n) s = (Ok xs, s\<lparr>rx := ys\<rparr>)"
  by (rule sio_Ok) (rule read_exact_append)

lemma sio_write [io_simps]: "writable s \<Longrightarrow> sio (write_all bs) s = (Ok (), s\<lparr>tx := tx s @ bs\<rparr>)"
  by (rule sio_Ok) simp

lemma sized_field_run:
  assumes "rx s = auth_field v @ rest" "wf_field v"
  shows "io_bind (sio (read_exact 1)) (\<lambda>len. io_bind (sio (read_exact (unat (len ! 0)))) utf8_or_error) s
    = (Ok v, s\<lparr>rx := rest\<rparr>)"
proof -
  have 1: "sio (read_exact 1) s = (Ok [word_of_nat (length v)], s\<lparr>rx := bytes_of v @ rest\<rparr>)"
    using assms(1) by (intro sio_read) (simp_all add: auth_field_def)
  have 2: "sio (read_exact (length v)) (s\<lparr>rx := bytes_of v @ rest\<rparr>) = (Ok (bytes_of v), s\<lparr>rx := rest\<rparr>)"
    using sio_read [of "s\<lparr>rx := bytes_of v @ rest\<rparr>" "bytes_of v" rest "length v"] by simp
  show ?thesis
    using assms(2) by (simp add: io_bind_def 1 2 utf8_or_error_def from_utf8_def wf_field_def del: One_nat_def)
qed

lemma authenticate_user_run:
  assumes "rx s = client_auth u p @ rest" "wf_field u" "wf_field p" "writable s"
  shows "authenticate_user auth s =
    (if valid_login auth u p then (Ok (), s\<lparr>rx := rest, tx := tx s @ [1, 0]\<rparr>)
     else (Err AuthenticationFailed, s\<lparr>rx := rest, tx := tx s @ [1, 1]\<rparr>))"
proof -
  have 1: "sio (read_exact 1) s = (Ok [1], s\<lparr>rx := auth_field u @ auth_field p @ rest\<rparr>)"
    using assms(1) by (intro sio_read) (simp_all add: client_auth_def)
  have 2: "read_auth_field (s\<lparr>rx := auth_field u @ auth_field p @ rest\<rparr>)
      = (Ok u, s\<lparr>rx := auth_field p @ rest\<rparr>)"
    unfolding read_auth_field_def
    using sized_field_run [of "s\<lparr>rx := auth_field u @ auth_field p @ rest\<rparr>" u] assms(2) by simp
  have 3: "read_auth_field (s\<lparr>rx := auth_field p @ rest\<rparr>) = (Ok p, s\<lparr>rx := rest\<rparr>)"
    unfolding read_auth_field_def
    using sized_field_run [of "s\<lparr>rx := auth_field p @ rest\<rparr>" p] assms(3) by simp
  show ?thesis
    using assms(4)
    by (auto simp: authenticate_user_def io_bind_def 1 2 3 sio_write valid_login_def list_ex_iff Let_def
        simp del: One_nat_def)
qed

lemma read_target_address_run:
  assumes "rx s = target_bytes t @ rest" "wf_target t"
  shows "\<exists>b bs. target_bytes t = b # bs
    \<and> read_target_address b (s\<lparr>rx := bs @ rest\<rparr>) = (Ok (target_text t), s\<lparr>rx := rest\<rparr>)"
proof (cases t)
  case (TargetV4 a)
  have "sio (read_exact 4) (s\<lparr>rx := to_be_bytes 4 a @ rest\<rparr>) = (Ok (to_be_bytes 4 a), s\<lparr>rx := rest\<rparr>)"
    using sio_read [of "s\<lparr>rx := to_be_bytes 4 a @ rest\<rparr>" "to_be_bytes 4 a" rest 4] by simp
  then show ?thesis
    using TargetV4 by (simp add: read_target_address_def io_bind_def from_to_be_bytes)
next
  case (TargetV6 a)
  have "sio (read_exact 16) (s\<lparr>rx := to_be_bytes 16 a @ rest\<rparr>) = (Ok (to_be_bytes 16 a), s\<lparr>rx := rest\<rparr>)"
    using sio_read [of "s\<lparr>rx := to_be_bytes 16 a @ rest\<rparr>" "to_be_bytes 16 a" rest 16] by simp
  then show ?thesis
    using TargetV6 by (simp add: read_target_address_def io_bind_def from_to_be_bytes)
next
  case (TargetDomain d)
  then show ?thesis
    using sized_field_run [of "s\<lparr>rx := auth_field d @ rest\<rparr>" d rest] assms(2)
    by (simp add: read_target_address_def)
qed

lemma read_request_run:
  assumes "rx s = client_connect t port @ rest" "wf_target t" "writable s"
  shows "read_request s = (Ok (Connect (target_text t) port), s\<lparr>rx := rest, tx := tx s @ connect_reply\<rparr>)"
proof -
  let ?s = "s\<lparr>rx := target_bytes t @ to_be_bytes 2 port @ rest\<rparr>"
  obtain b bs where b: "target_bytes t = b # bs"
    and t: "read_target_address b (s\<lparr>rx := bs @ to_be_bytes 2 port @ rest\<rparr>)
      = (Ok (target_text t), s\<lparr>rx := to_be_bytes 2 port @ rest\<rparr>)"
    using read_target_address_run [of ?s t "to_be_bytes 2 port @ rest"] assms(2) by auto
  have 1: "sio (read_exact 4) s = (Ok [5, 1, 0, b], s\<lparr>rx := bs @ to_be_bytes 2 port @ rest\<rparr>)"
    using assms(1) b by (intro sio_read) (simp_all add: client_connect_def)
  have 2: "sio (read_exact 2) (s\<lparr>rx := to_be_bytes 2 port @ rest\<rparr>) = (Ok (to_be_bytes 2 port), s\<lparr>rx := rest\<rparr>)"
    using sio_read [of "s\<lparr>rx := to_be_bytes 2 port @ rest\<rparr>" "to_be_bytes 2 port" rest 2] by simp
  have p: "from_be_bytes (to_be_bytes 2 port) = port" by (simp add: from_to_be_bytes)
  show ?thesis
    using assms(3) by (simp add: read_request_def io_bind_def 1 t 2 p sio_write connect_reply_def)
qed

lemma greeting_run:
  assumes "rx s = client_greeting methods @ rest" "length methods < 256"
  shows "sio (read_exact 2) s = (Ok [5, word_of_nat (length methods)], s\<lparr>rx := methods @ rest\<rparr>)"
    and "sio (read_exact (length methods)) (s\<lparr>rx := methods @ rest\<rparr>) = (Ok methods, s\<lparr>rx := rest\<rparr>)"
    and "unat (word_of_nat (length methods) :: byte) = length methods"
proof -
  show "sio (read_exact 2) s = (Ok [5, word_of_nat (length methods)], s\<lparr>rx := methods @ rest\<rparr>)"
    using assms(1) by (intro sio_read) (simp_all add: client_greeting_def)
  show "sio (read_exact (length methods)) (s\<lparr>rx := methods @ rest\<rparr>) = (Ok methods, s\<lparr>rx := rest\<rparr>)"
    using sio_read [of "s\<lparr>rx := methods @ rest\<rparr>" methods rest] by simp
  show "unat (word_of_nat (length methods) :: byte) = length methods"
    using assms(2) by simp
qed

section \<open>Inverting a successful run\<close>

lemma sio_OkD: "sio m s = (Ok a, s') \<Longrightarrow> m s = (Ok a, s')"
  unfolding sio_def by (rule io_map_err_OkE)

lemma sio_read_OkD:
  "sio (read_exact n) s = (Ok bs, s') \<Longrightarrow> length bs = n \<and> rx s = bs @ rx s' \<and> tx s' = tx s"
  by (drule sio_OkD) (auto simp: read_exact_def at_rx_end_def split: if_splits rx_end.splits)

lemma sio_write_OkD:
  "sio (write_all bs) s = (Ok u, s') \<Longrightarrow> rx s' = rx s \<and> tx s' = tx s @ bs"
  using write_all_OkD [of bs s u s'] by (auto dest: sio_OkD)

lemma utf8_or_error_OkD:
  "utf8_or_error bs s = (Ok v, s') \<Longrightarrow> s' = s \<and> bs = bytes_of v \<and> valid_utf8 bs"
  by (auto simp: utf8_or_error_def from_utf8_def split: if_splits option.splits)

lemma sized_field_OkD:
  assumes "io_bind (sio (read_exact 1)) (\<lambda>len. io_bind (sio (read_exact (unat (len ! 0)))) utf8_or_error) s
    = (Ok v, s')"
  shows "rx s = auth_field v @ rx s' \<and> wf_field v \<and> tx s' = tx s"
proof -
  obtain len s1 bs s2 where 1: "sio (read_exact 1) s = (Ok len, s1)"
    and 2: "sio (read_exact (unat (len ! 0))) s1 = (Ok bs, s2)" and 3: "utf8_or_error bs s2 = (Ok v, s')"
    using assms by (blast elim: io_bind_OkE)
  from sio_read_OkD [OF 1] obtain b where len: "len = [b]" "rx s = b # rx s1" "tx s1 = tx s"
    by (cases len) auto
  from sio_read_OkD [OF 2] len have bs: "length bs = unat b" "rx s1 = bs @ rx s2" "tx s2 = tx s1" by simp_all
  from utf8_or_error_OkD [OF 3] have v: "s' = s2" "bs = bytes_of v" "valid_utf8 bs" by auto
  have b: "length v = unat b" using v(2) bs(1) by simp
  then have "word_of_nat (length v) = b" by simp
  moreover have "length v < 256" using b by simp
  ultimately show ?thesis using len bs v by (simp add: auth_field_def wf_field_def)
qed

lemma authenticate_user_OkD:
  assumes "authenticate_user auth s = (Ok x, s')"
  shows "\<exists>u p. rx s = client_auth u p @ rx s' \<and> wf_field u \<and> wf_field p
    \<and> valid_login auth u p \<and> tx s' = tx s @ [1, 0]"
proof -
  from assms obtain ver s1 where 1: "sio (read_exact 1) s = (Ok ver, s1)" and
    r: "(if ver ! 0 \<noteq> 0x01
       then io_bind (io_ignore (write_all [0x01, 0x01])) (\<lambda>_. io_err AuthenticationFailed)
       else io_bind read_auth_field (\<lambda>name. io_bind read_auth_field (\<lambda>pass.
         let accepted = list_ex (\<lambda>user. username user = name \<and> password user = pass) (users auth);
             status = (if accepted then 0x00 else 0x01)
         in io_bind (sio (write_all [0x01, status])) (\<lambda>_.
            if accepted then io_ok () else io_err AuthenticationFailed)))) s1 = (Ok x, s')"
    unfolding authenticate_user_def by (blast elim: io_bind_OkE)
  from sio_read_OkD [OF 1] obtain b where ver: "ver = [b]" "rx s = b # rx s1" "tx s1 = tx s"
    by (cases ver) auto
  have b: "b = 1"
  proof (rule ccontr)
    assume "b \<noteq> 1"
    with r ver(1) show False by (auto elim!: io_bind_OkE)
  qed
  with r ver(1) obtain u s2 p s3 where 2: "read_auth_field s1 = (Ok u, s2)"
    and 3: "read_auth_field s2 = (Ok p, s3)" and
    4: "(let accepted = list_ex (\<lambda>user. username user = u \<and> password user = p) (users auth);
             status = (if accepted then 0x00 else 0x01)
         in io_bind (sio (write_all [0x01, status])) (\<lambda>_.
            if accepted then io_ok () else io_err AuthenticationFailed)) s3 = (Ok x, s')"
    by (auto elim!: io_bind_OkE)
  from 4 have "list_ex (\<lambda>user. username user = u \<and> password user = p) (users auth)"
    and "sio (write_all [1, 0]) s3 = (Ok (), s')"
    by (auto simp: Let_def elim!: io_bind_OkE split: if_splits)
  then have "valid_login auth u p" and w: "rx s' = rx s3 \<and> tx s' = tx s3 @ [1, 0]"
    by (auto simp: valid_login_def list_ex_iff dest: sio_write_OkD)
  moreover note sized_field_OkD [OF 2 [unfolded read_auth_field_def]]
    sized_field_OkD [OF 3 [unfolded read_auth_field_def]]
  ultimately show ?thesis
    using ver b by (intro exI [of _ u] exI [of _ p]) (simp add: client_auth_def)
qed

lemma read_target_address_OkD:
  assumes "read_target_address b s = (Ok v, s')"
  shows "\<exists>t. b # rx s = target_bytes t @ rx s' \<and> wf_target t \<and> v = target_text t \<and> tx s' = tx s"
proof -
  consider "b = 1" | "b = 3" | "b = 4"
    using assms by (auto simp: read_target_address_def split: if_splits)
  then show ?thesis
  proof cases
    case 1
    with assms obtain addr where "sio (read_exact 4) s = (Ok addr, s')"
      and v: "v = ipv4_to_string (from_be_bytes addr)"
      by (auto simp: read_target_address_def elim!: io_bind_OkE)
    then have "length addr = 4 \<and> rx s = addr @ rx s' \<and> tx s' = tx s" by (blast dest: sio_read_OkD)
    with 1 v show ?thesis
      by (intro exI [of _ "TargetV4 (from_be_bytes addr)"]) (simp add: to_from_be_bytes)
  next
    case 2
    with assms have "rx s = auth_field v @ rx s' \<and> wf_field v \<and> tx s' = tx s"
      by (intro sized_field_OkD) (simp add: read_target_address_def)
    with 2 show ?thesis by (intro exI [of _ "TargetDomain v"]) simp
  next
    case 3
    with assms obtain addr where "sio (read_exact 16) s = (Ok addr, s')"
      and v: "v = ipv6_to_string (from_be_bytes addr)"
      by (auto simp: read_target_address_def elim!: io_bind_OkE)
    then have "length addr = 16 \<and> rx s = addr @ rx s' \<and> tx s' = tx s" by (blast dest: sio_read_OkD)
    with 3 v show ?thesis
      by (intro exI [of _ "TargetV6 (from_be_bytes addr)"]) (simp add: to_from_be_bytes)
  qed
qed

lemma read_request_OkD:
  assumes "read_request s = (Ok cmd, s')"
  shows "\<exists>t port. rx s = client_connect t port @ rx s' \<and> wf_target t
    \<and> cmd = Connect (target_text t) port \<and> tx s' = tx s @ connect_reply"
proof -
  from assms obtain req s1 where 1: "sio (read_exact 4) s = (Ok req, s1)" and
    r: "(if req ! 0 \<noteq> 0x05 \<or> req ! 1 \<noteq> 0x01 \<or> req ! 2 \<noteq> 0x00
       then io_bind (sio (write_all [0x05, 0x07, 0x00, 0x01, 0, 0, 0, 0, 0, 0]))
              (\<lambda>_. io_err UnsupportedCommand)
       else io_bind (read_target_address (req ! 3)) (\<lambda>target.
         io_bind (sio (read_exact 2)) (\<lambda>port.
         io_bind (sio (write_all [0x05, 0x00, 0x00, 0x01, 0, 0, 0, 0, 0, 0])) (\<lambda>_.
           io_ok (Connect target (from_be_bytes port)))))) s1 = (Ok cmd, s')"
    unfolding read_request_def by (blast elim: io_bind_OkE)
  from sio_read_OkD [OF 1] obtain a b c d where req: "req = [a, b, c, d]" "rx s = a # b # c # d # rx s1"
    "tx s1 = tx s" by (auto elim!: length_eq_4E)
  have abc: "a = 5 \<and> b = 1 \<and> c = 0"
  proof (rule ccontr)
    assume "\<not> (a = 5 \<and> b = 1 \<and> c = 0)"
    with r req(1) show False by (auto elim!: io_bind_OkE)
  qed
  with r req(1) obtain v s2 pb s3 where 2: "read_target_address d s1 = (Ok v, s2)"
    and 3: "sio (read_exact 2) s2 = (Ok pb, s3)" and 4: "sio (write_all connect_reply) s3 = (Ok (), s')"
    and cmd: "cmd = Connect v (from_be_bytes pb)"
    by (auto simp: connect_reply_def elim!: io_bind_OkE)
  from read_target_address_OkD [OF 2] obtain t where t: "d # rx s1 = target_bytes t @ rx s2"
    "wf_target t" "v = target_text t" "tx s2 = tx s1" by blast
  from sio_read_OkD [OF 3] have pb: "to_be_bytes 2 (from_be_bytes pb :: u16) = pb" "rx s2 = pb @ rx s3"
    "tx s3 = tx s2" by (simp_all add: to_from_be_bytes)
  have "rx s = client_connect t (from_be_bytes pb) @ rx s3"
    using req(2) abc t(1) pb(1,2) by (simp add: client_connect_def)
  then show ?thesis
    using sio_write_OkD [OF 4] cmd t pb(3) req(3)
    by (intro exI [of _ t] exI [of _ "from_be_bytes pb"]) simp
qed

text \<open>The whole exchange of a client, with the login when accounts are configured.\<close>

definition client_exchange ::
    "socks_auth_config option \<Rightarrow> bytes \<Rightarrow> string \<Rightarrow> string \<Rightarrow> socks_target \<Rightarrow> u16 \<Rightarrow> bytes" where
  "client_exchange auth methods u p t port =
     client_greeting methods @ (case auth of None \<Rightarrow> [] | Some _ \<Rightarrow> client_auth u p)
       @ client_connect t port"

definition server_replies :: "socks_auth_config option \<Rightarrow> bytes" where
  "server_replies auth = (case auth of None \<Rightarrow> [5, 0] | Some _ \<Rightarrow> [5, 2] @ [1, 0]) @ connect_reply"

definition method_for :: "socks_auth_config option \<Rightarrow> byte" where
  "method_for auth = (case auth of None \<Rightarrow> 0 | Some _ \<Rightarrow> 2)"

definition login_ok :: "socks_auth_config option \<Rightarrow> string \<Rightarrow> string \<Rightarrow> bool" where
  "login_ok auth u p =
     (case auth of None \<Rightarrow> True | Some a \<Rightarrow> wf_field u \<and> wf_field p \<and> valid_login a u p)"

section \<open>Properties\<close>

lemma handshake_run:
  assumes "rx s = client_exchange auth methods u p t port @ rest" "length methods < 256"
    and "method_for auth \<in> set methods" "login_ok auth u p" "wf_target t" "writable s"
  shows "handle_socks5_handshake auth s =
    (Ok (Connect (target_text t) port), s\<lparr>rx := rest, tx := tx s @ server_replies auth\<rparr>)"
proof (cases auth)
  case None
  note g = greeting_run [of s methods "client_connect t port @ rest"]
  have "read_request (s\<lparr>rx := client_connect t port @ rest, tx := tx s @ [5, 0]\<rparr>)
      = (Ok (Connect (target_text t) port), s\<lparr>rx := rest, tx := (tx s @ [5, 0]) @ connect_reply\<rparr>)"
    using assms(5,6) read_request_run [of "s\<lparr>rx := client_connect t port @ rest, tx := tx s @ [5, 0]\<rparr>"] by simp
  then show ?thesis
    using assms None g
    by (simp add: handle_socks5_handshake_def io_bind_def Let_def sio_write client_exchange_def
        method_for_def server_replies_def)
next
  case (Some a)
  let ?r1 = "client_auth u p @ client_connect t port @ rest" and ?r2 = "client_connect t port @ rest"
  note g = greeting_run [of s methods ?r1]
  have l: "wf_field u" "wf_field p" "valid_login a u p" using assms(4) Some by (simp_all add: login_ok_def)
  have "authenticate_user a (s\<lparr>rx := ?r1, tx := tx s @ [5, 2]\<rparr>)
      = (Ok (), s\<lparr>rx := ?r2, tx := (tx s @ [5, 2]) @ [1, 0]\<rparr>)"
    using authenticate_user_run [of "s\<lparr>rx := ?r1, tx := tx s @ [5, 2]\<rparr>" u p ?r2 a] l assms(6) by simp
  moreover have "read_request (s\<lparr>rx := ?r2, tx := tx s @ [5, 2, 1, 0]\<rparr>)
      = (Ok (Connect (target_text t) port), s\<lparr>rx := rest, tx := (tx s @ [5, 2, 1, 0]) @ connect_reply\<rparr>)"
    using assms(5,6) read_request_run [of "s\<lparr>rx := ?r2, tx := tx s @ [5, 2, 1, 0]\<rparr>"] by simp
  ultimately show ?thesis
    using assms Some g
    by (simp add: handle_socks5_handshake_def io_bind_def Let_def sio_write client_exchange_def
        method_for_def server_replies_def)
qed

text \<open>
  C3. Completeness of the handshake: a client that offers the required method, logs in with
  a configured account where accounts are configured, and asks for a well-formed target,
  gets exactly the protocol's replies, the server obtains that target in text form and the
  port, and every byte behind the request stays unread on the stream.
\<close>

theorem handshake_complete:
  assumes "rx s = client_exchange auth methods u p t port @ rest" "length methods < 256"
    and "method_for auth \<in> set methods" "login_ok auth u p" "wf_target t" "writable s"
  shows "handle_socks5_handshake auth s =
    (Ok (Connect (target_text t) port), s\<lparr>rx := rest, tx := tx s @ server_replies auth\<rparr>)"
  using assms by (rule handshake_run)

lemma handshake_OkD:
  assumes "handle_socks5_handshake auth s = (Ok cmd, s')"
  shows "\<exists>methods u p t port. rx s = client_exchange auth methods u p t port @ rx s'
    \<and> method_for auth \<in> set methods \<and> login_ok auth u p \<and> wf_target t
    \<and> cmd = Connect (target_text t) port \<and> tx s' = tx s @ server_replies auth"
proof -
  let ?m = "if auth \<noteq> None then 0x02 else 0x00 :: byte"
  let ?auth = "case auth of Some a \<Rightarrow> authenticate_user a | None \<Rightarrow> io_ok ()"
  from assms obtain hdr s1 where 1: "sio (read_exact 2) s = (Ok hdr, s1)" and
    r: "(if hdr ! 0 \<noteq> 0x05 then io_err UnsupportedVersion
     else io_bind (sio (read_exact (unat (hdr ! 1)))) (\<lambda>methods.
         let selected_method = ?m
         in if selected_method \<notin> set methods
            then io_bind (sio (write_all [0x05, 0xFF])) (\<lambda>_. io_err NoAcceptableMethod)
            else io_bind (sio (write_all [0x05, selected_method])) (\<lambda>_.
              io_bind ?auth (\<lambda>_. read_request)))) s1 = (Ok cmd, s')"
    unfolding handle_socks5_handshake_def by (blast elim: io_bind_OkE)
  from sio_read_OkD [OF 1] obtain a b where hdr: "hdr = [a, b]" "rx s = a # b # rx s1" "tx s1 = tx s"
    by (auto simp: numeral_2_eq_2 length_Suc_conv)
  from r hdr(1) obtain methods s2 s3 x s4 where v: "a = 5"
    and 2: "sio (read_exact (unat b)) s1 = (Ok methods, s2)" and m: "?m \<in> set methods"
    and 3: "sio (write_all [5, ?m]) s2 = (Ok (), s3)" and 4: "?auth s3 = (Ok x, s4)"
    and 5: "read_request s4 = (Ok cmd, s')"
    by (auto simp: Let_def elim!: io_bind_OkE split: if_splits)
  from sio_read_OkD [OF 2] have ms: "length methods = unat b" "rx s1 = methods @ rx s2" "tx s2 = tx s1"
    by simp_all
  have g: "rx s = client_greeting methods @ rx s2"
    using hdr v ms by (simp add: client_greeting_def)
  have mf: "method_for auth = ?m" by (cases auth) (simp_all add: method_for_def)
  note 3 = sio_write_OkD [OF 3]
  from read_request_OkD [OF 5] obtain t port where t: "rx s4 = client_connect t port @ rx s'" "wf_target t"
    "cmd = Connect (target_text t) port" "tx s' = tx s4 @ connect_reply" by blast
  show ?thesis
  proof (cases auth)
    case None
    with 4 have "s4 = s3" by simp
    with None t 3 m mf g hdr ms show ?thesis
      by (intro exI [of _ methods] exI [of _ "[]"] exI [of _ t] exI [of _ port])
        (simp add: client_exchange_def login_ok_def server_replies_def)
  next
    case (Some au)
    with 4 obtain u p where "rx s3 = client_auth u p @ rx s4" "login_ok auth u p" "tx s4 = tx s3 @ [1, 0]"
      by (auto simp: login_ok_def dest: authenticate_user_OkD)
    with Some t 3 m mf g hdr ms show ?thesis
      by (intro exI [of _ methods] exI [of _ u] exI [of _ p] exI [of _ t] exI [of _ port])
        (simp add: client_exchange_def server_replies_def)
  qed
qed

text \<open>
  C2. Soundness of the handshake, on any stream and whatever its write errors: if it
  succeeds, the bytes it consumed were a greeting that offers the required method, then,
  where accounts are configured, a login with the name and password of one of them, then a
  well-formed CONNECT request for the returned target; there is no way around the login.
\<close>

theorem handshake_sound:
  assumes "handle_socks5_handshake auth s = (Ok cmd, s')"
  shows "\<exists>methods u p t port. rx s = client_exchange auth methods u p t port @ rx s'
    \<and> method_for auth \<in> set methods \<and> login_ok auth u p \<and> wf_target t
    \<and> cmd = Connect (target_text t) port \<and> tx s' = tx s @ server_replies auth"
  using assms by (rule handshake_OkD)

definition demo_auth :: socks_auth_config where
  "demo_auth = \<lparr>users = [\<lparr>username = ''alice'', password = ''secret''\<rparr>, \<lparr>username = ''bob'', password = ''pass2''\<rparr>]\<rparr>"

lemma demo_login: "login_ok (Some demo_auth) ''bob'' ''pass2''"
  "wf_field ''alice''" "wf_field ''pass2''"
proof -
  have f: "wf_field ''alice''" "wf_field ''pass2''" "wf_field ''bob''" by code_simp+
  then show "wf_field ''alice''" "wf_field ''pass2''" by simp_all
  show "login_ok (Some demo_auth) ''bob'' ''pass2''"
    using f by (simp add: login_ok_def valid_login_def demo_auth_def)
qed

theorem handshake_complete_witness:
  "handle_socks5_handshake (Some demo_auth)
      (open_stream (client_exchange (Some demo_auth) [0, 2] ''bob'' ''pass2'' (TargetV4 0x959AA732) 443 @ [7, 8]) Eof)
    = (Ok (Connect (ipv4_to_string 0x959AA732) 443),
       (open_stream [7, 8] Eof)\<lparr>tx := [5, 2, 1, 0, 5, 0, 0, 1, 0, 0, 0, 0, 0, 0]\<rparr>)"
  using handshake_complete [of "open_stream (client_exchange (Some demo_auth) [0, 2] ''bob'' ''pass2'' (TargetV4 0x959AA732) 443 @ [7, 8]) Eof"
      "Some demo_auth" "[0, 2]" "''bob''" "''pass2''" "TargetV4 0x959AA732" 443 "[7, 8]"] demo_login(1)
  by (simp add: method_for_def server_replies_def connect_reply_def open_stream_def writable_def)

theorem handshake_sound_witness:
  "\<exists>methods u p t port.
     client_exchange (Some demo_auth) [2] ''bob'' ''pass2'' (TargetV6 1) 443
       = client_exchange (Some demo_auth) methods u p t port
     \<and> 2 \<in> set methods \<and> login_ok (Some demo_auth) u p"
proof -
  let ?x = "client_exchange (Some demo_auth) [2] ''bob'' ''pass2'' (TargetV6 1) 443"
  have "handle_socks5_handshake (Some demo_auth) (open_stream ?x Eof)
      = (Ok (Connect (ipv6_to_string 1) 443), (open_stream ?x Eof)\<lparr>rx := [], tx := server_replies (Some demo_auth)\<rparr>)"
    using handshake_run [of "open_stream ?x Eof" "Some demo_auth" "[2]" "''bob''" "''pass2''" "TargetV6 1" 443 "[]"]
      demo_login(1) by (simp add: method_for_def)
  from handshake_sound [OF this] obtain methods u p t port where
    "?x = client_exchange (Some demo_auth) methods u p t port" "2 \<in> set methods" "login_ok (Some demo_auth) u p"
    by (auto simp: method_for_def)
  then show ?thesis by blast
qed

text \<open>
  A login that matches no account is refused with the reply 1, 1 and the error
  \<open>AuthenticationFailed\<close>; nothing behind the login is read, so no target is ever contacted.
\<close>

theorem handshake_rejects_login:
  assumes "rx s = client_greeting methods @ client_auth u p @ rest" "length methods < 256"
    and "2 \<in> set methods" "wf_field u" "wf_field p" "\<not> valid_login auth u p" "writable s"
  shows "handle_socks5_handshake (Some auth) s =
    (Err AuthenticationFailed, s\<lparr>rx := rest, tx := tx s @ [5, 2, 1, 1]\<rparr>)"
proof -
  note g = greeting_run [OF assms(1,2)]
  have "authenticate_user auth (s\<lparr>rx := client_auth u p @ rest, tx := tx s @ [5, 2]\<rparr>)
      = (Err AuthenticationFailed, s\<lparr>rx := rest, tx := (tx s @ [5, 2]) @ [1, 1]\<rparr>)"
    using authenticate_user_run [of "s\<lparr>rx := client_auth u p @ rest, tx := tx s @ [5, 2]\<rparr>" u p rest auth]
      assms by simp
  then show ?thesis
    using assms g by (simp add: handle_socks5_handshake_def io_bind_def Let_def sio_write)
qed

theorem handshake_rejects_login_witness:
  "handle_socks5_handshake (Some demo_auth)
      (open_stream (client_greeting [2] @ client_auth ''alice'' ''pass2'' @ [5, 1, 0]) Silent)
    = (Err AuthenticationFailed, (open_stream [5, 1, 0] Silent)\<lparr>tx := [5, 2, 1, 1]\<rparr>)"
  using handshake_rejects_login [of "open_stream (client_greeting [2] @ client_auth ''alice'' ''pass2'' @ [5, 1, 0]) Silent"
      "[2]" "''alice''" "''pass2''" "[5, 1, 0]" demo_auth] demo_login(2,3)
  by (simp add: valid_login_def demo_auth_def open_stream_def writable_def)

text \<open>
  A greeting that does not offer the method the configuration requires is answered
  with 5, 255 and ends in \<open>NoAcceptableMethod\<close>, with or without accounts configured.
\<close>

theorem handshake_rejects_methods:
  assumes "rx s = client_greeting methods @ rest" "length methods < 256"
    and "method_for auth \<notin> set methods" "writable s"
  shows "handle_socks5_handshake auth s =
    (Err NoAcceptableMethod, s\<lparr>rx := rest, tx := tx s @ [5, 0xFF]\<rparr>)"
  using assms greeting_run [OF assms(1,2)]
  by (cases auth)
    (simp_all add: handle_socks5_handshake_def io_bind_def Let_def sio_write method_for_def)

theorem handshake_rejects_methods_witness:
  "handle_socks5_handshake (Some demo_auth) (open_stream (client_greeting [0]) Eof)
    = (Err NoAcceptableMethod, (open_stream [] Eof)\<lparr>tx := [5, 0xFF]\<rparr>)"
  using handshake_rejects_methods [of "open_stream (client_greeting [0]) Eof" "[0]" "[]" "Some demo_auth"]
  by (simp add: method_for_def open_stream_def writable_def)

section \<open>Accounts, continued\<close>

definition auth_separator :: "char \<Rightarrow> bool" where
  "auth_separator c \<longleftrightarrow> c = CHR '','' \<or> c = CHR 0x0A \<or> c = CHR '';''"

definition auth_entries :: "string \<Rightarrow> string list" where
  "auth_entries raw = filter (\<lambda>e. e \<noteq> []) (map trim (split_on auth_separator raw))"

lemma parse_socks_auth_alt:
  "parse_socks_auth input =
     (if trim input = [] then Inr None
      else case parse_auth_entries (auth_entries (trim input)) of
             Inl e \<Rightarrow> Inl e
           | Inr us \<Rightarrow> if us = [] then Inr None else Inr (Some \<lparr>users = us\<rparr>))"
proof -
  have "auth_separator = (\<lambda>c. c = CHR '','' \<or> c = CHR 0x0A \<or> c = CHR '';'')"
    by (simp add: fun_eq_iff auth_separator_def)
  then show ?thesis by (simp add: parse_socks_auth_def auth_entries_def Let_def)
qed

definition show_user :: "socks_user \<Rightarrow> string" where
  "show_user user = username user @ CHR '':'' # password user"

text \<open>What parsing guarantees of an account, and what it takes to write one down.\<close>

definition wf_user :: "socks_user \<Rightarrow> bool" where
  "wf_user user \<longleftrightarrow> username user \<noteq> [] \<and> password user \<noteq> [] \<and> CHR '':'' \<notin> set (username user)"

definition plain_user :: "socks_user \<Rightarrow> bool" where
  "plain_user user \<longleftrightarrow> wf_user user
     \<and> (\<forall>c \<in> set (username user) \<union> set (password user). graphic c \<and> \<not> auth_separator c)"

fun show_auth :: "socks_user list \<Rightarrow> string" where
  "show_auth [] = []"
| "show_auth [user] = show_user user"
| "show_auth (user # us) = show_user user @ CHR '','' # show_auth us"

lemma parse_auth_entries_OkD:
  "parse_auth_entries es = Inr us \<Longrightarrow> map show_user us = es \<and> (\<forall>user \<in> set us. wf_user user)"
proof (induction es arbitrary: us)
  case (Cons entry es)
  then obtain u p us' where u: "split_once CHR '':'' entry = Some (u, p)" "u \<noteq> []" "p \<noteq> []"
    and us': "parse_auth_entries es = Inr us'" "us = \<lparr>username = u, password = p\<rparr> # us'"
    by (cases "parse_auth_entries es") (auto split: option.splits if_splits)
  from Cons.IH [OF us'(1)] us'(2) u split_once_SomeD [OF u(1)] show ?case
    by (simp add: show_user_def wf_user_def)
qed simp

lemma parse_auth_entries_show:
  "\<forall>user \<in> set us. wf_user user \<Longrightarrow> parse_auth_entries (map show_user us) = Inr us"
  by (induction us) (simp_all add: show_user_def wf_user_def)

lemma graphic_separator: "graphic CHR '':''" "graphic CHR '',''" "\<not> auth_separator CHR '':''"
  "auth_separator CHR '',''"
  by (simp_all add: graphic_def auth_separator_def)

lemma plain_user_chars: "plain_user user \<Longrightarrow> c \<in> set (show_user user) \<Longrightarrow> graphic c \<and> \<not> auth_separator c"
  by (auto simp: plain_user_def show_user_def graphic_separator)

lemma show_user_nonempty [simp]: "show_user user \<noteq> []"
  by (simp add: show_user_def)

lemma show_auth_graphic:
  "\<forall>user \<in> set us. plain_user user \<Longrightarrow> \<forall>c \<in> set (show_auth us). graphic c"
  by (induction us rule: show_auth.induct) (auto simp: graphic_separator dest: plain_user_chars)

lemma split_on_show_auth:
  "us \<noteq> [] \<Longrightarrow> \<forall>user \<in> set us. plain_user user \<Longrightarrow> split_on auth_separator (show_auth us) = map show_user us"
proof (induction us rule: show_auth.induct)
  case (2 user)
  then show ?case by (simp add: plain_user_chars)
next
  case (3 user u us)
  moreover have "\<forall>c \<in> set (show_user user). \<not> auth_separator c"
    using 3 plain_user_chars by auto
  ultimately show ?case
    by (simp add: split_on_append_sep graphic_separator)
qed simp

lemma show_auth_nonempty: "us \<noteq> [] \<Longrightarrow> show_auth us \<noteq> []"
  by (induction us rule: show_auth.induct) simp_all

text \<open>
  C29. The account list survives being written as \<open>user:pass\<close> pairs separated by commas:
  for every non-empty list of accounts whose fields are visible ASCII without separators
  (the password may contain colons), parsing returns exactly these accounts in order.
\<close>

theorem parse_socks_auth_roundtrip:
  assumes "us \<noteq> []" "\<forall>user \<in> set us. plain_user user"
  shows "parse_socks_auth (show_auth us) = Inr (Some \<lparr>users = us\<rparr>)"
proof -
  have t: "trim (show_auth us) = show_auth us"
    using assms show_auth_graphic by (intro trim_graphic) blast
  have "map (trim \<circ> show_user) us = map show_user us"
    using assms(2) by (auto intro!: trim_graphic dest: plain_user_chars)
  then have e: "auth_entries (show_auth us) = map show_user us"
    using assms by (simp add: auth_entries_def split_on_show_auth)
  have "\<forall>user \<in> set us. wf_user user" using assms(2) by (simp add: plain_user_def)
  with t e assms(1) show ?thesis
    by (simp add: parse_socks_auth_alt parse_auth_entries_show show_auth_nonempty)
qed

theorem parse_socks_auth_roundtrip_witness:
  "parse_socks_auth ''alice:a:b,bob:pass2''
    = Inr (Some \<lparr>users = [\<lparr>username = ''alice'', password = ''a:b''\<rparr>, \<lparr>username = ''bob'', password = ''pass2''\<rparr>]\<rparr>)"
  using parse_socks_auth_roundtrip
    [of "[\<lparr>username = ''alice'', password = ''a:b''\<rparr>, \<lparr>username = ''bob'', password = ''pass2''\<rparr>]"]
  by (simp add: plain_user_def wf_user_def show_user_def graphic_def auth_separator_def)

text \<open>
  Every accepted account list is well formed: it is not empty, every account has a
  non-empty name without a colon and a non-empty password, and written back as
  \<open>name:password\<close> the accounts are exactly the non-empty trimmed entries of the input.
\<close>

theorem parse_socks_auth_sound:
  assumes "parse_socks_auth input = Inr (Some auth)"
  shows "users auth \<noteq> [] \<and> (\<forall>user \<in> set (users auth). wf_user user)
    \<and> map show_user (users auth) = auth_entries (trim input)"
  using assms
  by (auto simp: parse_socks_auth_alt dest!: parse_auth_entries_OkD split: if_splits sum.splits)

theorem parse_socks_auth_sound_witness:
  "map show_user [\<lparr>username = ''u'', password = ''p''\<rparr>] = auth_entries (trim '' u:p ; '')"
proof -
  have "parse_socks_auth '' u:p ; '' = Inr (Some \<lparr>users = [\<lparr>username = ''u'', password = ''p''\<rparr>]\<rparr>)"
    by code_simp
  from parse_socks_auth_sound [OF this] show ?thesis by simp
qed

text \<open>
  An account list that consists of separators only is not reported as malformed: it
  means no accounts at all, and the handshake then accepts a client that offers the method
  without authentication.
\<close>

theorem parse_socks_auth_separators_only:
  assumes "\<forall>c \<in> set input. auth_separator c"
  shows "parse_socks_auth input = Inr None"
proof -
  have "h = []" if h: "h \<in> trim ` set (split_on auth_separator (trim input))" for h
  proof -
    from h obtain g where "h = trim g" "g \<in> set (split_on auth_separator (trim input))" by blast
    with set_split_on [OF this(2)] set_trim [of input] assms show ?thesis by (cases g) auto
  qed
  then have "auth_entries (trim input) = []" unfolding auth_entries_def filter_empty_conv set_map by blast
  then show ?thesis by (simp add: parse_socks_auth_alt)
qed

theorem parse_socks_auth_separators_only_witness: "parse_socks_auth '',;,'' = Inr None"
  using parse_socks_auth_separators_only [of "'',;,''"] by (simp add: auth_separator_def)

end
