(* ===== verification/Ws_Frame.thy ===== *)
theory Ws_Frame
  imports Io_Stream Rust_Str
begin

text \<open>
  WebSocket frames (\<open>modules/ws.rs\<close>): building masked client frames, reading frames of
  either side, close payloads, and the receiving and sending operations of the client and
  of its two halves. A draw of four random bytes (\<open>getrandom\<close>) is an argument, \<open>None\<close> where
  it fails. Lengths are 64 bits wide, as \<open>usize\<close> is on the platforms the program is built for;
  a buffer of more than \<open>isize::MAX\<close> bytes panics with \<open>capacity overflow\<close>. The allocation of a
  smaller one is taken to succeed; where memory does not suffice, the program aborts there.
\<close>

record ws_close_info =
  code :: "u16 option"
  reason :: "string option"

datatype ws_error =
    Handshake string
  | HttpStatus u16 "string option"
  | WsIo io_error
  | Tls string
  | Timeout

fun status_code :: "ws_error \<Rightarrow> u16 option" where
  "status_code (HttpStatus status location) = Some status"
| "status_code _ = None"

datatype ws_frame = Binary bytes | Ping bytes | Pong bytes | Close ws_close_info | Other bytes

datatype ws_incoming = InBinary bytes | InPing bytes | InClose ws_close_info

section \<open>Building frames\<close>

definition mask_key :: "bytes option \<Rightarrow> bytes" where
  "mask_key rnd = (case rnd of Some key \<Rightarrow> key | None \<Rightarrow> [0x11, 0x22, 0x33, 0x44])"

definition frame_length :: "nat \<Rightarrow> bytes" where
  "frame_length n =
     (if n < 126 then [0x80 OR word_of_nat n]
      else if n \<le> 65535 then (0x80 OR 126) # to_be_bytes 2 (word_of_nat n :: u16)
      else (0x80 OR 127) # to_be_bytes 8 (word_of_nat n :: u64))"

definition build_frame_with_opcode :: "bytes option \<Rightarrow> u8 \<Rightarrow> bytes \<Rightarrow> bytes" where
  "build_frame_with_opcode rnd opcode payload =
     (0x80 OR (opcode AND 0x0F)) # frame_length (length payload)
       @ mask_key rnd @ xor_with (\<lambda>idx. mask_key rnd ! (idx mod 4)) payload"

definition build_frame :: "bytes option \<Rightarrow> bytes \<Rightarrow> bytes" where
  "build_frame rnd payload = build_frame_with_opcode rnd 0x2 payload"

section \<open>Reading frames\<close>

definition wsio :: "(stream, 'a, io_error) io \<Rightarrow> (stream, 'a, ws_error) io" where
  "wsio m = io_map_err WsIo m"

definition parse_close_payload :: "bytes \<Rightarrow> ws_close_info" where
  "parse_close_payload payload =
     (if length payload < 2 then \<lparr>code = None, reason = None\<rparr>
      else \<lparr>code = Some (from_be_bytes [payload ! 0, payload ! 1]),
            reason = (if length payload > 2 then Some (from_utf8_lossy (drop 2 payload)) else None)\<rparr>)"

definition frame_of_opcode :: "u8 \<Rightarrow> bytes \<Rightarrow> ws_frame" where
  "frame_of_opcode opcode payload =
     (if opcode = 0x8 then Close (parse_close_payload payload)
      else if opcode = 0x9 then Ping payload
      else if opcode = 0xA then Pong payload
      else if opcode = 0x0 \<or> opcode = 0x1 \<or> opcode = 0x2 then Binary payload
      else Other payload)"

definition read_frame_length :: "u8 \<Rightarrow> (stream, u64, ws_error) io" where
  "read_frame_length b =
     (let len = ucast (b AND 0x7f) :: u64 in
      if len = 126 then
        io_bind (wsio (read_exact 2)) (\<lambda>ext. io_ok (ucast (from_be_bytes ext :: u16)))
      else if len = 127 then
        io_bind (wsio (read_exact 8)) (\<lambda>ext. io_ok (from_be_bytes ext))
      else io_ok len)"

definition isize_max :: nat where
  "isize_max = 2 ^ 63 - 1"

definition alloc_zeroed :: "nat \<Rightarrow> (stream, unit, ws_error) io" where
  "alloc_zeroed n = (if n \<le> isize_max then io_ok () else io_panic ''capacity overflow'')"

definition read_frame_body :: "u8 \<Rightarrow> u8 \<Rightarrow> (stream, ws_frame, ws_error) io" where
  "read_frame_body b0 b1 =
     io_bind (read_frame_length b1) (\<lambda>len.
       let masked = (b1 AND 0x80) \<noteq> 0 in
       io_bind (if masked then wsio (read_exact 4) else io_ok [0, 0, 0, 0]) (\<lambda>mask.
       io_bind (alloc_zeroed (unat len)) (\<lambda>_.
       io_bind (wsio (read_exact (unat len))) (\<lambda>payload.
         io_ok (frame_of_opcode (b0 AND 0x0f)
           (if masked then xor_with (\<lambda>idx. mask ! (idx mod 4)) payload else payload))))))"

definition read_frame :: "(stream, ws_frame option, ws_error) io" where
  "read_frame = (\<lambda>s. case read_exact 2 s of
      (Ok hdr, s') \<Rightarrow> io_bind (read_frame_body (hdr ! 0) (hdr ! 1)) (\<lambda>f. io_ok (Some f)) s'
    | (Err e, s') \<Rightarrow> if e = UnexpectedEof then (Ok None, s') else (Err (WsIo e), s')
    | (Panic p, s') \<Rightarrow> (Panic p, s')
    | (Pending, s') \<Rightarrow> (Pending, s'))"

section \<open>Lemmas on reading\<close>

lemma wsio_Ok: "m s = (Ok a, s') \<Longrightarrow> wsio m s = (Ok a, s')"
  by (simp add: wsio_def)

lemma wsio_read:
  "rx s = xs @ ys \<Longrightarrow> length xs = n \<Longrightarrow> wsio (read_exact n) s = (Ok xs, s\<lparr>rx := ys\<rparr>)"
  by (rule wsio_Ok) (rule read_exact_append)

lemma wsio_OkD: "wsio m s = (Ok a, s') \<Longrightarrow> m s = (Ok a, s')"
  unfolding wsio_def by (rule io_map_err_OkE)

lemma wsio_read_OkD:
  "wsio (read_exact n) s = (Ok bs, s') \<Longrightarrow> length bs = n \<and> rx s = bs @ rx s' \<and> s' = s\<lparr>rx := rx s'\<rparr>"
  by (rule read_exact_OkD) (rule wsio_OkD)

text \<open>A successful read consumes a prefix of what arrives and leaves the rest of the stream alone.\<close>

definition consumes :: "stream \<Rightarrow> stream \<Rightarrow> bool" where
  "consumes s s' \<longleftrightarrow> s' = s\<lparr>rx := rx s'\<rparr> \<and> suffix (rx s') (rx s)"

lemma consumes_refl [simp]: "consumes s s"
  by (simp add: consumes_def)

lemma consumes_trans: "consumes s s' \<Longrightarrow> consumes s' s'' \<Longrightarrow> consumes s s''"
  unfolding consumes_def by (metis stream.update_convs(1) stream.surjective suffix_order.trans)

lemma wsio_read_consumes: "wsio (read_exact n) s = (Ok bs, s') \<Longrightarrow> consumes s s'"
  using wsio_read_OkD [of n s bs s'] by (auto simp: consumes_def suffix_def)

lemma read_frame_length_consumes: "read_frame_length b s = (Ok n, s') \<Longrightarrow> consumes s s'"
  by (auto simp: read_frame_length_def Let_def elim!: io_bind_OkE dest: wsio_read_consumes split: if_splits)

lemma alloc_zeroed_OkD: "alloc_zeroed n s = (Ok u, s') \<Longrightarrow> s' = s \<and> n \<le> isize_max"
  by (auto simp: alloc_zeroed_def split: if_splits)

lemma read_frame_body_consumes: "read_frame_body b0 b1 s = (Ok f, s') \<Longrightarrow> consumes s s'"
  unfolding read_frame_body_def Let_def
  by (auto elim!: io_bind_OkE dest!: read_frame_length_consumes wsio_read_consumes alloc_zeroed_OkD
      split: if_splits intro: consumes_trans)

lemma read_frame_SomeD:
  assumes "read_frame s = (Ok (Some f), s')"
  obtains b0 b1 s1 where "rx s = b0 # b1 # rx s1" "s1 = s\<lparr>rx := rx s1\<rparr>"
    "read_frame_body b0 b1 s1 = (Ok f, s')"
proof -
  from assms obtain hdr s1 where 1: "read_exact 2 s = (Ok hdr, s1)"
    and 2: "read_frame_body (hdr ! 0) (hdr ! 1) s1 = (Ok f, s')"
    by (auto simp: read_frame_def elim!: io_bind_OkE split: prod.splits outcome.splits if_splits)
  from read_exact_OkD [OF 1] obtain b0 b1 where "hdr = [b0, b1]"
    by (auto simp: numeral_2_eq_2 length_Suc_conv)
  with read_exact_OkD [OF 1] 2 that show ?thesis by simp
qed

lemma read_frame_consumes:
  "read_frame s = (Ok (Some f), s') \<Longrightarrow> consumes s s' \<and> length (rx s') + 2 \<le> length (rx s)"
  by (erule read_frame_SomeD, drule read_frame_body_consumes)
    (auto simp: consumes_def suffix_def intro: stream.equality)

section \<open>The client and its halves\<close>

text \<open>The writing half and the client itself have the same methods.\<close>

definition send_raw :: "bytes \<Rightarrow> (stream, unit, ws_error) io" where
  "send_raw frame = io_bind (wsio (write_all frame)) (\<lambda>_. wsio flush)"

definition ws_send :: "bytes option \<Rightarrow> bytes \<Rightarrow> (stream, unit, ws_error) io" where
  "ws_send rnd payload = send_raw (build_frame rnd payload)"

definition send_control_frame :: "bytes option \<Rightarrow> u8 \<Rightarrow> bytes \<Rightarrow> (stream, unit, ws_error) io" where
  "send_control_frame rnd opcode payload = send_raw (build_frame_with_opcode rnd opcode payload)"

definition ws_close :: "(stream, unit, ws_error) io" where
  "ws_close = wsio shutdown"

definition client_send :: "bytes option \<Rightarrow> bytes \<Rightarrow> (stream, unit, ws_error) io" where
  "client_send rnd payload = send_raw (build_frame rnd payload)"

definition client_close :: "(stream, unit, ws_error) io" where
  "client_close = wsio shutdown"

lemma wsio_flush [simp]: "wsio flush s = (Ok (), s)"
  by (rule wsio_Ok) simp

lemma send_raw_rx: "rx (snd (send_raw frame s)) = rx s \<and> rx_end (snd (send_raw frame s)) = rx_end s"
  by (auto simp: send_raw_def wsio_def io_bind_def io_map_err_def write_all_def flush_def io_ok_def
      split: option.split tx_end.split)

lemma send_raw_keeps: "on_shutdown (snd (send_raw frame s)) = on_shutdown s \<and> tx_end (snd (send_raw frame s)) = tx_end s"
  by (auto simp: send_raw_def wsio_def io_bind_def io_map_err_def write_all_def flush_def io_ok_def
      split: option.split tx_end.split)

lemma send_control_shut: "tx_shut s \<Longrightarrow> send_control_frame rnd op p s = (Err (WsIo BrokenPipe), s)"
  by (simp add: send_control_frame_def send_raw_def wsio_def io_bind_def io_map_err_def write_all_def
      build_frame_with_opcode_def Let_def)

lemma ws_close_ok: "shuts_down s \<Longrightarrow> ws_close s = (Ok (), s\<lparr>tx_shut := True\<rparr>)"
  unfolding ws_close_def by (rule wsio_Ok) (simp add: shutdown_ok)

lemma ws_close_state: "snd (ws_close s) = s\<lparr>tx_shut := True\<rparr>"
  by (simp add: ws_close_def wsio_def io_map_err_def shutdown_def split: shut_end.split)

lemma send_raw_OkD: "send_raw frame s = (Ok u, s') \<Longrightarrow> rx s' = rx s \<and> rx_end s' = rx_end s \<and> tx s' = tx s @ frame"
  by (auto simp: send_raw_def elim!: io_bind_OkE dest!: wsio_OkD write_all_OkD)

lemma send_raw_writable: "writable s \<Longrightarrow> send_raw frame s = (Ok (), s\<lparr>tx := tx s @ frame\<rparr>)"
  using wsio_Ok [of "write_all frame" s "()" "s\<lparr>tx := tx s @ frame\<rparr>"] by (simp add: send_raw_def)

text \<open>
  The receiving loops skip frames; every frame takes at least two bytes off the stream, so
  they end. The \<open>k\<close>-th pong that \<open>client_recv\<close> builds uses the \<open>k\<close>-th draw of \<open>rnds\<close>.
\<close>

function client_recv_from :: "(nat \<Rightarrow> bytes option) \<Rightarrow> nat \<Rightarrow> (stream, bytes option, ws_error) io" where
  "client_recv_from rnds k s = (case read_frame s of
      (Ok (Some (Binary payload)), s') \<Rightarrow> (Ok (Some payload), s')
    | (Ok (Some (Ping payload)), s') \<Rightarrow>
        (case send_raw (build_frame_with_opcode (rnds k) 0xA payload) s' of
           (Ok _, s'') \<Rightarrow> client_recv_from rnds (Suc k) s''
         | (Err e, s'') \<Rightarrow> (Err e, s'')
         | (Panic p, s'') \<Rightarrow> (Panic p, s'')
         | (Pending, s'') \<Rightarrow> (Pending, s''))
    | (Ok (Some (Pong _)), s') \<Rightarrow> client_recv_from rnds k s'
    | (Ok (Some (Close _)), s') \<Rightarrow> (Ok None, s')
    | (Ok (Some (Other _)), s') \<Rightarrow> (Ok None, s')
    | (Ok None, s') \<Rightarrow> (Ok None, s')
    | (Err e, s') \<Rightarrow> (Err e, s')
    | (Panic p, s') \<Rightarrow> (Panic p, s')
    | (Pending, s') \<Rightarrow> (Pending, s'))"
  by pat_completeness auto
termination
  by (relation "measure (\<lambda>(_, _, s). length (rx s))")
    (auto dest!: read_frame_consumes [OF sym] send_raw_OkD [OF sym])

definition client_recv :: "(nat \<Rightarrow> bytes option) \<Rightarrow> (stream, bytes option, ws_error) io" where
  "client_recv rnds = client_recv_from rnds 0"

function recv_frame :: "(stream, ws_incoming option, ws_error) io" where
  "recv_frame s = (case read_frame s of
      (Ok (Some (Binary payload)), s') \<Rightarrow> (Ok (Some (InBinary payload)), s')
    | (Ok (Some (Ping payload)), s') \<Rightarrow> (Ok (Some (InPing payload)), s')
    | (Ok (Some (Pong _)), s') \<Rightarrow> recv_frame s'
    | (Ok (Some (Close info)), s') \<Rightarrow> (Ok (Some (InClose info)), s')
    | (Ok (Some (Other _)), s') \<Rightarrow>
        (Ok (Some (InClose \<lparr>code = None, reason = Some ''unexpected_ws_frame''\<rparr>)), s')
    | (Ok None, s') \<Rightarrow> (Ok None, s')
    | (Err e, s') \<Rightarrow> (Err e, s')
    | (Panic p, s') \<Rightarrow> (Panic p, s')
    | (Pending, s') \<Rightarrow> (Pending, s'))"
  by pat_completeness auto
termination
  by (relation "measure (\<lambda>s. length (rx s))") (auto dest: read_frame_consumes [OF sym])

declare client_recv_from.simps [simp del] recv_frame.simps [simp del]

lemma recv_frame_consumes:
  "recv_frame s = (Ok (Some f), s') \<Longrightarrow> consumes s s' \<and> length (rx s') < length (rx s)"
proof (induction s rule: recv_frame.induct)
  case (1 s)
  obtain r s1 where r: "read_frame s = (r, s1)" by (cases "read_frame s")
  have "r = Ok (Some g) \<Longrightarrow> consumes s s1 \<and> length (rx s1) < length (rx s)" for g
    using r read_frame_consumes [of s g s1] by simp
  with 1 r show ?case
    by (fastforce simp: recv_frame.simps [of s] split: outcome.splits option.splits ws_frame.splits
        intro: consumes_trans)
qed

function reader_recv :: "(stream, bytes option, ws_error) io" where
  "reader_recv s = (case recv_frame s of
      (Ok (Some (InBinary payload)), s') \<Rightarrow> (Ok (Some payload), s')
    | (Ok (Some (InPing _)), s') \<Rightarrow> reader_recv s'
    | (Ok (Some (InClose _)), s') \<Rightarrow> (Ok None, s')
    | (Ok None, s') \<Rightarrow> (Ok None, s')
    | (Err e, s') \<Rightarrow> (Err e, s')
    | (Panic p, s') \<Rightarrow> (Panic p, s')
    | (Pending, s') \<Rightarrow> (Pending, s'))"
  by pat_completeness auto
termination
  by (relation "measure (\<lambda>s. length (rx s))") (auto dest: recv_frame_consumes [OF sym])

declare reader_recv.simps [simp del]

section \<open>Frames on the wire\<close>

text \<open>
  The frame of RFC 6455 with the first byte \<open>b0\<close> (FIN, the three reserved bits, the
  opcode), the shortest length field, and a mask or none.
\<close>

definition wire_length :: "byte \<Rightarrow> nat \<Rightarrow> bytes" where
  "wire_length m n =
     (if n < 126 then [m OR word_of_nat n]
      else if n \<le> 65535 then (m OR 126) # to_be_bytes 2 (word_of_nat n :: u16)
      else (m OR 127) # to_be_bytes 8 (word_of_nat n :: u64))"

fun wire_frame :: "byte \<Rightarrow> bytes option \<Rightarrow> bytes \<Rightarrow> bytes" where
  "wire_frame b0 None payload = b0 # wire_length 0 (length payload) @ payload"
| "wire_frame b0 (Some key) payload =
     b0 # wire_length 0x80 (length payload) @ key @ xor_with (\<lambda>i. key ! (i mod 4)) payload"

definition wf_mask :: "bytes option \<Rightarrow> bool" where
  "wf_mask k \<longleftrightarrow> (case k of None \<Rightarrow> True | Some key \<Rightarrow> length key = 4)"

lemma build_frame_wire:
  "build_frame_with_opcode rnd opcode payload
    = wire_frame (0x80 OR (opcode AND 0x0F)) (Some (mask_key rnd)) payload"
  by (simp add: build_frame_with_opcode_def frame_length_def wire_length_def)

lemma low_bits: "m = 0 \<or> m = 0x80 \<Longrightarrow> n < 128 \<Longrightarrow> (m OR word_of_nat n) AND 0x7f = (word_of_nat n :: byte)"
proof -
  assume m: "m = 0 \<or> m = 0x80" and n: "n < 128"
  have "(word_of_nat n :: byte) AND 0x7f = take_bit 7 (word_of_nat n)"
    by (simp add: take_bit_eq_mask mask_numeral)
  also have "\<dots> = word_of_nat n"
    using n unat_of_nat_byte [of n] unsigned_take_bit_eq [of 7 "word_of_nat n :: byte", where 'a = nat]
    by (simp only: word_unat_eq_iff take_bit_eq_mod) simp
  finally have "(word_of_nat n :: byte) AND 0x7f = word_of_nat n" .
  moreover have "m AND 0x7f = 0" using m by auto
  ultimately show ?thesis by (simp add: bit.conj_disj_distrib2)
qed

lemma high_bit:
  "n < 128 \<Longrightarrow> (0x80 OR word_of_nat n) AND 0x80 = (0x80 :: byte)"
  "n < 128 \<Longrightarrow> (word_of_nat n :: byte) AND 0x80 = 0"
proof -
  show "(0x80 OR word_of_nat n) AND 0x80 = (0x80 :: byte)"
    by (rule bit_word_eqI) (auto simp: bit_simps)
  assume n: "n < 128"
  have "\<not> bit (word_of_nat n :: byte) 7"
  proof -
    have "bit (word_of_nat n :: byte) 7 = bit (unat (word_of_nat n :: byte)) 7"
      by (simp only: bit_unsigned_iff) simp
    also have "unat (word_of_nat n :: byte) = n" using n by simp
    finally show ?thesis using n by (simp add: bit_iff_odd)
  qed
  then show "(word_of_nat n :: byte) AND 0x80 = 0"
    using and_exp_eq_0_iff_not_bit [of "word_of_nat n :: byte" 7] by simp
qed

lemma read_frame_length_wire:
  assumes "m = 0 \<or> m = 0x80" "n \<le> isize_max" "rx s = tl (wire_length m n) @ rest"
  shows "read_frame_length (hd (wire_length m n)) s = (Ok (word_of_nat n), s\<lparr>rx := rest\<rparr>)"
proof -
  consider "n < 126" | "126 \<le> n" "n \<le> 65535" | "65535 < n" by linarith
  then show ?thesis
  proof cases
    case 1
    then have "ucast (word_of_nat n :: byte) = (word_of_nat n :: u64)"
      by (simp add: word_unat_eq_iff unsigned_ucast_eq unat_of_nat take_bit_eq_mod)
    moreover have "(word_of_nat n :: u64) \<noteq> 126" "(word_of_nat n :: u64) \<noteq> 127"
      using 1 by (auto simp: word_unat_eq_iff unat_of_nat)
    moreover have "s\<lparr>rx := rest\<rparr> = s" using assms 1 by (simp add: wire_length_def)
    ultimately show ?thesis
      using 1 low_bits [OF assms(1), of n] by (simp add: wire_length_def read_frame_length_def Let_def)
  next
    case 2
    have "wsio (read_exact 2) s = (Ok (to_be_bytes 2 (word_of_nat n :: u16)), s\<lparr>rx := rest\<rparr>)"
      using assms(3) 2 by (intro wsio_read) (simp_all add: wire_length_def)
    moreover have "ucast (word_of_nat n :: u16) = (word_of_nat n :: u64)"
      using 2 by (simp add: word_unat_eq_iff unsigned_ucast_eq unat_of_nat take_bit_eq_mod)
    ultimately show ?thesis
      using 2 low_bits [OF assms(1), of 126]
      by (simp add: wire_length_def read_frame_length_def Let_def from_to_be_bytes)
  next
    case 3
    have "wsio (read_exact 8) s = (Ok (to_be_bytes 8 (word_of_nat n :: u64)), s\<lparr>rx := rest\<rparr>)"
      using assms(3) 3 by (intro wsio_read) (simp_all add: wire_length_def)
    then show ?thesis
      using 3 low_bits [OF assms(1), of 127]
      by (simp add: wire_length_def read_frame_length_def Let_def from_to_be_bytes)
  qed
qed

lemma wire_length_Cons: "\<exists>b bs. wire_length m n = b # bs"
  by (simp add: wire_length_def)

lemma wire_length_mask: "hd (wire_length 0x80 n) AND 0x80 \<noteq> 0" "hd (wire_length 0 n) AND 0x80 = 0"
  using high_bit [of n] high_bit [of 126] high_bit [of 127] by (simp_all add: wire_length_def)

lemma unat_of_nat_u64: "n \<le> isize_max \<Longrightarrow> unat (word_of_nat n :: u64) = n"
  by (simp add: isize_max_def unat_of_nat)

lemma read_frame_body_wire:
  assumes "rx s = tl (tl (wire_frame b0 k payload)) @ rest" "length payload \<le> isize_max" "wf_mask k"
  shows "read_frame_body b0 (hd (tl (wire_frame b0 k payload))) s
    = (Ok (frame_of_opcode (b0 AND 0x0f) payload), s\<lparr>rx := rest\<rparr>)"
proof (cases k)
  case None
  let ?n = "length payload"
  obtain b bs where b: "wire_length 0 ?n = b # bs" using wire_length_Cons by blast
  have 1: "read_frame_length b s = (Ok (word_of_nat ?n), s\<lparr>rx := payload @ rest\<rparr>)"
    using read_frame_length_wire [of 0 ?n s "payload @ rest"] assms None b by simp
  have 2: "wsio (read_exact ?n) (s\<lparr>rx := payload @ rest\<rparr>) = (Ok payload, s\<lparr>rx := rest\<rparr>)"
    using wsio_read [of "s\<lparr>rx := payload @ rest\<rparr>" payload rest] by simp
  show ?thesis
    using None b wire_length_mask(2) [of ?n] assms(2)
    by (simp add: read_frame_body_def 1 2 Let_def alloc_zeroed_def unat_of_nat_u64)
next
  case (Some key)
  let ?n = "length payload" and ?p = "xor_with (\<lambda>i. key ! (i mod 4)) payload"
  obtain b bs where b: "wire_length 0x80 ?n = b # bs" using wire_length_Cons by blast
  have 1: "read_frame_length b s = (Ok (word_of_nat ?n), s\<lparr>rx := key @ ?p @ rest\<rparr>)"
    using read_frame_length_wire [of "0x80" ?n s "key @ ?p @ rest"] assms Some b by simp
  have 2: "wsio (read_exact 4) (s\<lparr>rx := key @ ?p @ rest\<rparr>) = (Ok key, s\<lparr>rx := ?p @ rest\<rparr>)"
    using wsio_read [of "s\<lparr>rx := key @ ?p @ rest\<rparr>" key "?p @ rest" 4] assms(3) Some by (simp add: wf_mask_def)
  have 3: "wsio (read_exact ?n) (s\<lparr>rx := ?p @ rest\<rparr>) = (Ok ?p, s\<lparr>rx := rest\<rparr>)"
    using wsio_read [of "s\<lparr>rx := ?p @ rest\<rparr>" ?p rest] by simp
  show ?thesis
    using Some b wire_length_mask(1) [of ?n] assms(2)
    by (simp add: read_frame_body_def 1 2 3 Let_def alloc_zeroed_def unat_of_nat_u64)
qed

lemma wire_frame_Cons: "\<exists>b1 bs. wire_frame b0 k payload = b0 # b1 # bs"
  using wire_length_Cons [of 0 "length payload"] wire_length_Cons [of "0x80" "length payload"] by (cases k) auto

lemma read_frame_wire:
  assumes "rx s = wire_frame b0 k payload @ rest" "length payload \<le> isize_max" "wf_mask k"
  shows "read_frame s = (Ok (Some (frame_of_opcode (b0 AND 0x0f) payload)), s\<lparr>rx := rest\<rparr>)"
proof -
  obtain b1 bs where b: "wire_frame b0 k payload = b0 # b1 # bs" using wire_frame_Cons by blast
  have 1: "read_exact 2 s = (Ok [b0, b1], s\<lparr>rx := bs @ rest\<rparr>)"
    using assms(1) b by (intro read_exact_append) simp_all
  have "read_frame_body b0 b1 (s\<lparr>rx := bs @ rest\<rparr>) = (Ok (frame_of_opcode (b0 AND 0x0f) payload), s\<lparr>rx := rest\<rparr>)"
    using read_frame_body_wire [of "s\<lparr>rx := bs @ rest\<rparr>" b0 k payload rest] b assms(2,3) by simp
  then show ?thesis by (simp add: read_frame_def 1)
qed

section \<open>Sequences of frames\<close>

text \<open>Reading up to \<open>n\<close> items, until the reader reports the end.\<close>

primrec read_n :: "nat \<Rightarrow> ('s, 'a option, 'e) io \<Rightarrow> ('s, 'a list, 'e) io" where
  "read_n 0 d = io_ok []"
| "read_n (Suc n) d = io_bind d (\<lambda>r. case r of
      None \<Rightarrow> io_ok []
    | Some a \<Rightarrow> io_bind (read_n n d) (\<lambda>as. io_ok (a # as)))"

text \<open>
  The contract between the two ends of a connection: what one end encodes, the other end
  reads item by item, leaving the bytes behind it; an exhausted stream reads as the end.
\<close>

locale frame_codec =
  fixes enc :: "'f \<Rightarrow> bytes" and view :: "'f \<Rightarrow> 'v" and wf_item :: "'f \<Rightarrow> bool"
    and dec :: "(stream, 'v option, 'e) io"
  assumes dec_enc: "wf_item f \<Longrightarrow> rx s = enc f @ rest \<Longrightarrow> dec s = (Ok (Some (view f)), s\<lparr>rx := rest\<rparr>)"
    and dec_eof: "rx s = [] \<Longrightarrow> rx_end s = Eof \<Longrightarrow> dec s = (Ok None, s)"
begin

lemma read_n_encoded:
  "\<forall>f \<in> set fs. wf_item f \<Longrightarrow> rx s = concat (map enc fs) @ rest \<Longrightarrow>
   read_n (length fs) dec s = (Ok (map view fs), s\<lparr>rx := rest\<rparr>)"
proof (induction fs arbitrary: s)
  case (Cons f fs)
  have "dec s = (Ok (Some (view f)), s\<lparr>rx := concat (map enc fs) @ rest\<rparr>)"
    using Cons.prems by (intro dec_enc) simp_all
  with Cons.IH [of "s\<lparr>rx := concat (map enc fs) @ rest\<rparr>"] Cons.prems show ?case by simp
qed (auto intro: stream.equality)

lemma read_n_all:
  "\<forall>f \<in> set fs. wf_item f \<Longrightarrow> rx s = concat (map enc fs) \<Longrightarrow> rx_end s = Eof \<Longrightarrow> length fs < n \<Longrightarrow>
   read_n n dec s = (Ok (map view fs), s\<lparr>rx := []\<rparr>)"
proof (induction fs arbitrary: s n)
  case Nil
  then show ?case by (cases n) (auto simp: dec_eof)
next
  case (Cons f fs)
  obtain m where m: "n = Suc m" "length fs < m" using Cons.prems(4) by (cases n) auto
  have "dec s = (Ok (Some (view f)), s\<lparr>rx := concat (map enc fs)\<rparr>)"
    using Cons.prems by (intro dec_enc) simp_all
  with Cons.IH [of "s\<lparr>rx := concat (map enc fs)\<rparr>" m] Cons.prems m show ?case by simp
qed

lemma uniquely_decodable:
  assumes "\<forall>f \<in> set fs. wf_item f" "\<forall>g \<in> set gs. wf_item g" "concat (map enc fs) = concat (map enc gs)"
  shows "map view fs = map view gs"
proof -
  let ?s = "open_stream (concat (map enc fs)) Eof" and ?n = "Suc (length fs + length gs)"
  have "read_n ?n dec ?s = (Ok (map view fs), ?s\<lparr>rx := []\<rparr>)"
    using assms by (intro read_n_all) simp_all
  moreover have "read_n ?n dec ?s = (Ok (map view gs), ?s\<lparr>rx := []\<rparr>)"
    using assms by (intro read_n_all) simp_all
  ultimately show ?thesis by simp
qed

end

text \<open>The frames of the program's writer, and the unmasked frames a server sends.\<close>

type_synonym client_frame = "bytes option \<times> u8 \<times> bytes"

fun client_bytes :: "client_frame \<Rightarrow> bytes" where
  "client_bytes (rnd, opcode, payload) = build_frame_with_opcode rnd opcode payload"

fun client_view :: "client_frame \<Rightarrow> ws_frame" where
  "client_view (rnd, opcode, payload) = frame_of_opcode (opcode AND 0x0f) payload"

fun wf_client_frame :: "client_frame \<Rightarrow> bool" where
  "wf_client_frame (rnd, opcode, payload) \<longleftrightarrow> wf_mask rnd \<and> length payload \<le> isize_max"

fun server_bytes :: "byte \<times> bytes \<Rightarrow> bytes" where
  "server_bytes (b0, payload) = wire_frame b0 None payload"

fun server_view :: "byte \<times> bytes \<Rightarrow> ws_frame" where
  "server_view (b0, payload) = frame_of_opcode (b0 AND 0x0f) payload"

definition wf_server_frame :: "byte \<times> bytes \<Rightarrow> bool" where
  "wf_server_frame f \<longleftrightarrow> length (snd f) \<le> isize_max"

lemma client_opcode: "(0x80 OR (opcode AND 0x0F)) AND 0x0f = (opcode AND 0x0f :: byte)"
  by (simp add: bit.conj_disj_distrib2 and.assoc)

lemma read_frame_eof: "rx s = [] \<Longrightarrow> rx_end s = Eof \<Longrightarrow> read_frame s = (Ok None, s)"
  by (auto simp: read_frame_def read_exact_def at_rx_end_def intro: stream.equality)

lemma read_client_frame:
  "wf_client_frame f \<Longrightarrow> rx s = client_bytes f @ rest \<Longrightarrow>
   read_frame s = (Ok (Some (client_view f)), s\<lparr>rx := rest\<rparr>)"
proof (cases f)
  case (fields rnd opcode payload)
  assume "wf_client_frame f" "rx s = client_bytes f @ rest"
  with fields have w: "wf_mask (Some (mask_key rnd))" "length payload \<le> isize_max"
    "rx s = wire_frame (0x80 OR (opcode AND 0x0F)) (Some (mask_key rnd)) payload @ rest"
    by (auto simp: wf_mask_def mask_key_def build_frame_wire split: option.splits)
  from read_frame_wire [OF w(3,2,1)] fields show ?thesis by (simp add: client_opcode)
qed

lemma read_server_frame:
  "wf_server_frame f \<Longrightarrow> rx s = server_bytes f @ rest \<Longrightarrow>
   read_frame s = (Ok (Some (server_view f)), s\<lparr>rx := rest\<rparr>)"
  using read_frame_wire [of s "fst f" None "snd f" rest] by (cases f) (simp add: wf_mask_def wf_server_frame_def)

interpretation client_codec: frame_codec client_bytes client_view wf_client_frame read_frame
  by unfold_locales (auto simp: read_frame_eof intro: read_client_frame)

interpretation server_codec: frame_codec server_bytes server_view wf_server_frame read_frame
  by unfold_locales (auto simp: read_frame_eof intro: read_server_frame)

section \<open>Properties\<close>

text \<open>
  C20. Whatever sequence of frames the program writes (any opcodes, any payloads up to the
  largest buffer, any masks, the fixed mask of a failed random draw included), a reader gets
  back exactly these frames in order, unmasked, and then the end of the stream.
\<close>

theorem client_frames_roundtrip:
  assumes "\<forall>f \<in> set fs. wf_client_frame f" "rx s = concat (map client_bytes fs)" "rx_end s = Eof"
    and "length fs < n"
  shows "read_n n read_frame s = (Ok (map client_view fs), s\<lparr>rx := []\<rparr>)"
  using assms by (rule client_codec.read_n_all)

theorem client_frames_roundtrip_witness:
  "read_n 3 read_frame (open_stream (build_frame None [1, 2, 3] @ build_frame_with_opcode (Some [9, 8, 7, 6]) 0xA []) Eof)
    = (Ok [Binary [1, 2, 3], Pong []], open_stream [] Eof)"
  using client_frames_roundtrip [of "[(None, 2, [1, 2, 3]), (Some [9, 8, 7, 6], 0xA, [])]"
      "open_stream (build_frame None [1, 2, 3] @ build_frame_with_opcode (Some [9, 8, 7, 6]) 0xA []) Eof" 3]
  by (simp add: wf_mask_def isize_max_def build_frame_def frame_of_opcode_def)
    (simp add: open_stream_def)?

text \<open>
  Reading a frame ignores the FIN bit and the three reserved bits: the same bytes with
  another upper half of the first byte give the same result. A frame whose reserved bit says
  that its payload is compressed is handed on as if it were plain.
\<close>

theorem read_frame_ignores_flags:
  assumes "b AND 0x0f = b' AND 0x0f"
  shows "read_frame (s\<lparr>rx := b # bs\<rparr>) = read_frame (s\<lparr>rx := b' # bs\<rparr>)"
proof -
  have "read_frame_body b = read_frame_body b'"
    using assms by (simp add: fun_eq_iff read_frame_body_def)
  then show ?thesis
    by (cases bs) (simp_all add: read_frame_def read_exact_def at_rx_end_def)
qed

theorem read_frame_ignores_flags_witness:
  "read_frame (open_stream [0xC2, 1, 0xFF] Eof) = read_frame (open_stream [0x82, 1, 0xFF] Eof)"
  using read_frame_ignores_flags [where b = "0xC2" and b' = "0x82" and s = "open_stream [] Eof" and bs = "[1, 0xFF]"]
  by (simp add: open_stream_def)

text \<open>
  C40. A frame header that announces a payload of 2 to the 63 bytes or more makes the reader
  panic (the allocation of the buffer overflows the capacity) instead of returning an error
  or reading on, before any of the payload arrives.
\<close>

theorem read_frame_huge_panics:
  assumes "rx s = b0 # 0x7f # to_be_bytes 8 (n :: u64) @ rest" "2 ^ 63 \<le> unat n"
  shows "read_frame s = (Panic ''capacity overflow'', s\<lparr>rx := rest\<rparr>)"
proof -
  have 1: "read_exact 2 s = (Ok [b0, 0x7f], s\<lparr>rx := to_be_bytes 8 n @ rest\<rparr>)"
    using assms(1) by (intro read_exact_append) simp_all
  have "wsio (read_exact 8) (s\<lparr>rx := to_be_bytes 8 n @ rest\<rparr>) = (Ok (to_be_bytes 8 n), s\<lparr>rx := rest\<rparr>)"
    using wsio_read [of "s\<lparr>rx := to_be_bytes 8 n @ rest\<rparr>" "to_be_bytes 8 n" rest 8] by simp
  then have "read_frame_length 0x7f (s\<lparr>rx := to_be_bytes 8 n @ rest\<rparr>) = (Ok n, s\<lparr>rx := rest\<rparr>)"
    by (simp add: read_frame_length_def Let_def from_to_be_bytes)
  with assms(2) show ?thesis
    by (simp add: read_frame_def 1 read_frame_body_def Let_def alloc_zeroed_def isize_max_def)
qed

theorem read_frame_huge_panics_witness:
  "read_frame (open_stream ([0x82, 0x7f] @ to_be_bytes 8 (2 ^ 63 :: u64)) Silent)
    = (Panic ''capacity overflow'', open_stream [] Silent)"
  using read_frame_huge_panics [of "open_stream ([0x82, 0x7f] @ to_be_bytes 8 (2 ^ 63 :: u64)) Silent" "0x82" "2 ^ 63" "[]"]
  by (simp add: open_stream_def)

section \<open>Receiving past control frames\<close>

fun incoming_of :: "ws_frame \<Rightarrow> ws_incoming option" where
  "incoming_of (Binary p) = Some (InBinary p)"
| "incoming_of (Ping p) = Some (InPing p)"
| "incoming_of (Pong p) = None"
| "incoming_of (Close i) = Some (InClose i)"
| "incoming_of (Other p) = Some (InClose \<lparr>code = None, reason = Some ''unexpected_ws_frame''\<rparr>)"

lemma recv_frame_step:
  "read_frame s = (Ok (Some f), s') \<Longrightarrow>
   recv_frame s = (case incoming_of f of Some i \<Rightarrow> (Ok (Some i), s') | None \<Rightarrow> recv_frame s')"
  by (cases f) (simp_all add: recv_frame.simps [of s])

text \<open>
  The reader delivers the first frame that is not a pong: any number of pongs in front
  of it is skipped, a data or ping frame is delivered with its payload, a close frame with
  its code and reason, and a frame of any other opcode counts as a close. Exactly the bytes
  up to the end of that frame are consumed.
\<close>

theorem recv_frame_next:
  assumes "\<forall>p \<in> set pongs. wf_server_frame p \<and> (\<exists>x. server_view p = Pong x)" "wf_server_frame f"
    and "incoming_of (server_view f) = Some i"
    and "rx s = concat (map server_bytes pongs) @ server_bytes f @ rest"
  shows "recv_frame s = (Ok (Some i), s\<lparr>rx := rest\<rparr>)"
  using assms(1,4)
proof (induction pongs arbitrary: s)
  case Nil
  then have "read_frame s = (Ok (Some (server_view f)), s\<lparr>rx := rest\<rparr>)"
    using assms(2) by (intro read_server_frame) simp_all
  with assms(3) show ?case by (simp add: recv_frame_step)
next
  case (Cons p pongs)
  let ?s = "s\<lparr>rx := concat (map server_bytes pongs) @ server_bytes f @ rest\<rparr>"
  have "read_frame s = (Ok (Some (server_view p)), ?s)"
    using Cons.prems by (intro read_server_frame) simp_all
  moreover obtain x where "server_view p = Pong x" using Cons.prems by auto
  ultimately have "recv_frame s = recv_frame ?s" by (simp add: recv_frame_step)
  with Cons.IH [of ?s] Cons.prems show ?case by simp
qed

theorem recv_frame_next_witness:
  "recv_frame (open_stream (server_bytes (0x8A, [1]) @ server_bytes (0x88, [0x03, 0xE8]) @ [5]) Eof)
    = (Ok (Some (InClose \<lparr>code = Some 1000, reason = None\<rparr>)), open_stream [5] Eof)"
  using recv_frame_next [of "[(0x8A, [1])]" "(0x88, [0x03, 0xE8])" "InClose \<lparr>code = Some 1000, reason = None\<rparr>"
      "open_stream (server_bytes (0x8A, [1]) @ server_bytes (0x88, [0x03, 0xE8]) @ [5]) Eof" "[5]"]
  by (simp add: wf_server_frame_def isize_max_def frame_of_opcode_def parse_close_payload_def
      from_be_bytes_def be_nat_def open_stream_def)

fun pongs_for :: "(nat \<Rightarrow> bytes option) \<Rightarrow> nat \<Rightarrow> ws_frame list \<Rightarrow> bytes" where
  "pongs_for rnds k [] = []"
| "pongs_for rnds k (Ping p # fs) = build_frame_with_opcode (rnds k) 0xA p @ pongs_for rnds (Suc k) fs"
| "pongs_for rnds k (f # fs) = pongs_for rnds k fs"

lemma client_recv_from_run:
  assumes "wf_server_frame f" "server_view f = Binary p"
  shows "\<forall>c \<in> set cs. wf_server_frame c \<and> (\<exists>x. server_view c = Ping x \<or> server_view c = Pong x) \<Longrightarrow>
    rx s = concat (map server_bytes cs) @ server_bytes f @ rest \<Longrightarrow> writable s \<Longrightarrow>
    client_recv_from rnds k s
      = (Ok (Some p), s\<lparr>rx := rest, tx := tx s @ pongs_for rnds k (map server_view cs)\<rparr>)"
proof (induction cs arbitrary: s k)
  case Nil
  then have "read_frame s = (Ok (Some (server_view f)), s\<lparr>rx := rest\<rparr>)"
    using assms by (intro read_server_frame) simp_all
  with assms show ?case by (simp add: client_recv_from.simps [of _ _ s])
next
  case (Cons c cs)
  let ?s = "s\<lparr>rx := concat (map server_bytes cs) @ server_bytes f @ rest\<rparr>"
  have r: "read_frame s = (Ok (Some (server_view c)), ?s)"
    using Cons.prems by (intro read_server_frame) simp_all
  from Cons.prems obtain x where "server_view c = Ping x \<or> server_view c = Pong x" by auto
  then show ?case
  proof
    assume c: "server_view c = Ping x"
    let ?w = "build_frame_with_opcode (rnds k) 0xA x"
    have "client_recv_from rnds k s = client_recv_from rnds (Suc k) (?s\<lparr>tx := tx s @ ?w\<rparr>)"
      using r c Cons.prems send_raw_writable [of ?s ?w] by (simp add: client_recv_from.simps [of _ _ s])
    with Cons.IH [of "?s\<lparr>tx := tx s @ ?w\<rparr>"] Cons.prems c show ?thesis by simp
  next
    assume c: "server_view c = Pong x"
    then have "client_recv_from rnds k s = client_recv_from rnds k ?s"
      using r by (simp add: client_recv_from.simps [of _ _ s])
    with Cons.IH [of ?s] Cons.prems c show ?thesis by simp
  qed
qed

text \<open>
  Receiving on the unsplit client returns the payload of the first data frame and has by
  then answered every ping in front of it, in order, with a pong of the same payload; pongs
  are skipped and nothing behind the data frame is consumed.
\<close>

theorem client_recv_answers_pings:
  assumes "wf_server_frame f" "server_view f = Binary p"
    and "\<forall>c \<in> set cs. wf_server_frame c \<and> (\<exists>x. server_view c = Ping x \<or> server_view c = Pong x)"
    and "rx s = concat (map server_bytes cs) @ server_bytes f @ rest" "writable s"
  shows "client_recv rnds s
    = (Ok (Some p), s\<lparr>rx := rest, tx := tx s @ pongs_for rnds 0 (map server_view cs)\<rparr>)"
  unfolding client_recv_def using assms by (rule client_recv_from_run)

theorem client_recv_answers_pings_witness:
  "client_recv (\<lambda>_. None) (open_stream (server_bytes (0x89, [7]) @ server_bytes (0x82, [1, 2])) Eof)
    = (Ok (Some [1, 2]), (open_stream [] Eof)\<lparr>tx := build_frame_with_opcode None 0xA [7]\<rparr>)"
  using client_recv_answers_pings [of "(0x82, [1, 2])" "[1, 2]" "[(0x89, [7])]"
      "open_stream (server_bytes (0x89, [7]) @ server_bytes (0x82, [1, 2])) Eof" "[]" "\<lambda>_. None"]
  by (simp add: wf_server_frame_def isize_max_def frame_of_opcode_def)
    (simp add: open_stream_def)

end
