(* ===== verification/Ascii_Text.thy ===== *)
theory Ascii_Text
  imports Std_Net
begin

text \<open>
  Facts about ASCII text that several parsers share: printed decimal numbers are read back,
  words are separated by blanks, lines by their terminator, and ASCII is valid UTF-8.
\<close>

section \<open>Decimal numbers\<close>

lemma parse_digits_show:
  "acc * 10 ^ length (show_nat n) + n < bound \<Longrightarrow>
   parse_digits bound acc (show_nat n @ cs) = parse_digits bound (acc * 10 ^ length (show_nat n) + n) cs"
proof (induction n arbitrary: cs rule: less_induct)
  case (less n)
  show ?case
  proof (cases "n < 10")
    case True
    then show ?thesis using less.prems by (simp add: show_radix.simps [of 10 n] to_digit_digit_char)
  next
    case False
    define v where "v = acc * 10 ^ length (show_nat (n div 10)) + n div 10"
    have s: "show_nat n = show_nat (n div 10) @ [digit_char (n mod 10)]"
      using False by (simp add: show_radix.simps [of 10 n])
    have e: "acc * 10 ^ length (show_nat n) + n = v * 10 + n mod 10"
      unfolding v_def s by (simp add: algebra_simps)
    then have b: "v * 10 + n mod 10 < bound" using less.prems by simp
    then have "v < bound" by linarith
    with less.IH [of "n div 10" "digit_char (n mod 10) # cs"] False
    have "parse_digits bound acc (show_nat n @ cs) = parse_digits bound v (digit_char (n mod 10) # cs)"
      by (simp add: s v_def)
    with b show ?thesis unfolding e by (simp add: to_digit_digit_char)
  qed
qed

lemma show_nat_chars: "c \<in> set (show_nat n) \<Longrightarrow> 48 \<le> (of_char c :: nat) \<and> (of_char c :: nat) \<le> 57"
proof (induction n rule: less_induct)
  case (less n)
  then show ?case
    using less.IH [of "n div 10"]
    by (cases "n < 10") (auto simp: show_radix.simps [of 10 n] digit_char_def)
qed

lemma parse_u16_show: "parse_u16 (show_nat (unat w)) = Inr w"
proof -
  have "unat w < 65536" using unsigned_less [of w, where 'a = nat] by simp
  then have p: "parse_digits 65536 0 (show_nat (unat w)) = Inr (unat w)"
    using parse_digits_show [of 0 "unat w" 65536 "[]"] by simp
  obtain c cs where c: "show_nat (unat w) = c # cs" using show_radix_ne by (meson neq_Nil_conv)
  then have "c \<noteq> CHR ''+''" "c \<noteq> CHR ''-''" using show_nat_chars [of c "unat w"] by auto
  with p c show ?thesis by (simp add: parse_u16_def)
qed

section \<open>Words and lines of ASCII text\<close>

lemma strip_count_space: "strip_count ws_encodings (CHR '' '' # s) = 1"
  by (simp add: ws_encodings_def)

lemma trim_space:
  assumes "s = [] \<or> graphic (hd s) \<and> graphic (last s)"
  shows "trim (CHR '' '' # s) = s"
proof -
  have "trim_start (CHR '' '' # s) = trim_start s"
    by (simp add: trim_start_def strip_start.simps [of _ "CHR '' '' # s"] strip_count_space)
  with trim_graphic_ends [OF assms] show ?thesis by (simp add: trim_def)
qed

lemma split_ws_word:
  "\<forall>c \<in> set w. graphic c \<Longrightarrow> acc @ w \<noteq> [] \<Longrightarrow>
   split_ws_from acc (w @ CHR '' '' # s) = (acc @ w) # split_ws_from [] s"
proof (induction w arbitrary: acc)
  case Nil
  then show ?case by (simp add: split_ws_from.simps [of acc] strip_count_space)
next
  case (Cons c w)
  have "strip_count ws_encodings ((c # w) @ CHR '' '' # s) = 0"
    using Cons.prems by (intro strip_count_no_head ws_not_graphic) simp
  with Cons show ?case by (simp add: split_ws_from.simps [of acc "c # w @ CHR '' '' # s"])
qed

definition printable :: "char \<Rightarrow> bool" where
  "printable c \<longleftrightarrow> 32 \<le> (of_char c :: nat) \<and> (of_char c :: nat) \<le> 126"

lemma ascii_valid: "\<forall>c \<in> set s. (of_char c :: nat) < 128 \<Longrightarrow> valid_utf8 (bytes_of s)"
proof (induction s)
  case (Cons c s)
  have "utf8_width (word_of_nat (of_char c)) = 1"
    using Cons.prems by (simp add: utf8_width_def word_less_nat_alt)
  with Cons show ?case by (simp add: bytes_of_def valid_utf8.simps [of "_ # _"])
qed (simp add: bytes_of_def)

lemma from_utf8_ascii: "\<forall>c \<in> set s. (of_char c :: nat) < 128 \<Longrightarrow> from_utf8 (bytes_of s) = Some s"
  by (simp add: from_utf8_def ascii_valid)

lemma from_utf8_lossy_ascii: "\<forall>c \<in> set s. (of_char c :: nat) < 128 \<Longrightarrow> from_utf8_lossy (bytes_of s) = s"
  by (simp add: from_utf8_lossy_def utf8_lossy_id ascii_valid)

lemma split_on_lines:
  "\<forall>l \<in> set ls. \<forall>c \<in> set l. \<not> p c \<Longrightarrow> p d \<Longrightarrow> split_on p (concat (map (\<lambda>l. l @ [d]) ls)) = ls @ [[]]"
  by (induction ls) (simp_all add: split_on_append_sep)
end
