(* ===== verification/Ws_Handshake.thy ===== *)
theory Ws_Handshake
  imports Ws_Frame Ascii_Text
begin

text \<open>
  The opening handshake of the WebSocket client (\<open>modules/ws.rs\<close>): the HTTP upgrade
  request, reading and parsing the response, its validation, and connecting. The network,
  TLS, the random source, SHA-1 and base64 are third-party code: the record \<open>ws_net\<close> holds
  what they answer. A connection attempt under a \<open>timeout\<close> answers \<open>None\<close> when the given
  number of milliseconds passes first.
\<close>

record ws_net =
  tcp_connect :: "string \<Rightarrow> u16 \<Rightarrow> nat \<Rightarrow> (io_error + stream) option"
  server_name :: "string \<Rightarrow> string option"
  tls_connect :: "string \<Rightarrow> stream \<Rightarrow> nat \<Rightarrow> (string + stream) option"
  getrandom16 :: "string + bytes"
  sha1 :: "bytes \<Rightarrow> bytes"
  base64_encode :: "bytes \<Rightarrow> string"

record ws_handshake =
  hs_status :: u16
  redirected :: bool
  hs_location :: "string option"

record ws_handshake_request =
  req_payload :: string
  expected_accept :: string

record ws_handshake_response =
  status :: u16
  location :: "string option"
  upgrade :: "string option"
  connection :: "string option"
  accept :: "string option"
  protocol :: "string option"

definition WS_GUID :: string where
  "WS_GUID = ''258EAFA5-E914-47DA-95CA-C5AB0DC85B11''"

definition MAX_HANDSHAKE_HEADER_SIZE :: nat where
  "MAX_HANDSHAKE_HEADER_SIZE = 8192"

section \<open>The request\<close>

definition crlf :: string where
  "crlf = [CHR 0x0D, CHR 0x0A]"

definition websocket_key :: "ws_net \<Rightarrow> ws_error + string" where
  "websocket_key net =
     (case getrandom16 net of
        Inl err \<Rightarrow> Inl (Handshake (''ws key generation failed: '' @ err))
      | Inr key \<Rightarrow> Inr (base64_encode net key))"

definition websocket_accept :: "ws_net \<Rightarrow> string \<Rightarrow> string" where
  "websocket_accept net key = base64_encode net (sha1 net (bytes_of (key @ WS_GUID)))"

definition build_handshake_request_with_key :: "ws_net \<Rightarrow> string \<Rightarrow> string \<Rightarrow> ws_handshake_request" where
  "build_handshake_request_with_key net domain key =
     \<lparr>req_payload =
        ''GET /apiws HTTP/1.1'' @ crlf
        @ ''Host: '' @ domain @ crlf
        @ ''Upgrade: websocket'' @ crlf
        @ ''Connection: Upgrade'' @ crlf
        @ ''Cache-Control: no-cache'' @ crlf
        @ ''Pragma: no-cache'' @ crlf
        @ ''Sec-WebSocket-Key: '' @ key @ crlf
        @ ''Sec-WebSocket-Version: 13'' @ crlf
        @ ''Sec-WebSocket-Protocol: binary'' @ crlf
        @ ''Origin: https://web.telegram.org'' @ crlf
        @ ''Accept-Encoding: gzip, deflate, br, zstd'' @ crlf
        @ ''User-Agent: Mozilla/5.0 (X11; Linux x86_64) AppleWebKit/537.36 (KHTML, like Gecko) Chrome/145.0.0.0 Safari/537.36'' @ crlf
        @ ''Sec-WebSocket-Extensions: permessage-deflate; client_max_window_bits'' @ crlf
        @ crlf,
      expected_accept = websocket_accept net key\<rparr>"

definition build_handshake_request :: "ws_net \<Rightarrow> string \<Rightarrow> ws_error + ws_handshake_request" where
  "build_handshake_request net domain =
     map_sum id (build_handshake_request_with_key net domain) (websocket_key net)"

section \<open>The response\<close>

definition header_end :: bytes where
  "header_end = [0x0D, 0x0A, 0x0D, 0x0A]"

function read_headers_from :: "bytes \<Rightarrow> (stream, bytes, ws_error) io" where
  "read_headers_from header s =
     (if length header < MAX_HANDSHAKE_HEADER_SIZE then
        case wsio read_byte s of
          (Ok None, s') \<Rightarrow> (Err (Handshake ''connection closed''), s')
        | (Ok (Some b), s') \<Rightarrow>
            if suffix header_end (header @ [b]) then (Ok (header @ [b]), s')
            else read_headers_from (header @ [b]) s'
        | (Err e, s') \<Rightarrow> (Err e, s')
        | (Panic p, s') \<Rightarrow> (Panic p, s')
        | (Pending, s') \<Rightarrow> (Pending, s')
      else (Ok header, s))"
  by pat_completeness auto
termination
  by (relation "measure (\<lambda>(header, s). MAX_HANDSHAKE_HEADER_SIZE - length header)") auto

declare read_headers_from.simps [simp del]

definition read_handshake_headers :: "(stream, bytes, ws_error) io" where
  "read_handshake_headers =
     io_bind (read_headers_from []) (\<lambda>header.
       if suffix header_end header then io_ok header
       else io_err (Handshake ''oversized_handshake_headers''))"

definition parse_status :: "bytes \<Rightarrow> ws_error + u16" where
  "parse_status line =
     (case split_whitespace (from_utf8_lossy line) of
        _ # st # _ \<Rightarrow>
          (case parse_u16 st of
             Inl _ \<Rightarrow> Inl (Handshake ''bad status'')
           | Inr n \<Rightarrow> Inr n)
      | _ \<Rightarrow> Inl (Handshake ''bad response''))"

definition set_header :: "string \<Rightarrow> string \<Rightarrow> ws_handshake_response \<Rightarrow> ws_handshake_response" where
  "set_header name val r =
     (if eq_ignore_ascii_case name ''location'' then r\<lparr>location := Some val\<rparr>
      else if eq_ignore_ascii_case name ''upgrade'' then r\<lparr>upgrade := Some val\<rparr>
      else if eq_ignore_ascii_case name ''connection'' then r\<lparr>connection := Some val\<rparr>
      else if eq_ignore_ascii_case name ''sec-websocket-accept'' then r\<lparr>accept := Some val\<rparr>
      else if eq_ignore_ascii_case name ''sec-websocket-protocol'' then r\<lparr>protocol := Some val\<rparr>
      else r)"

fun parse_header_lines :: "bytes list \<Rightarrow> ws_handshake_response \<Rightarrow> ws_error + ws_handshake_response" where
  "parse_header_lines [] r = Inr r"
| "parse_header_lines (line # ls) r =
     (if line = [0x0D] \<or> line = [] then Inr r
      else
        case split_once CHR '':'' (trim_end_matches_char CHR 0x0D
               (case from_utf8 line of Some t \<Rightarrow> t | None \<Rightarrow> [])) of
          None \<Rightarrow> Inl (Handshake ''malformed_handshake_header'')
        | Some (name, val) \<Rightarrow> parse_header_lines ls (set_header name (trim val) r))"

definition empty_response :: "u16 \<Rightarrow> ws_handshake_response" where
  "empty_response st = \<lparr>status = st, location = None, upgrade = None, connection = None,
     accept = None, protocol = None\<rparr>"

definition parse_handshake_response :: "bytes \<Rightarrow> ws_error + ws_handshake_response" where
  "parse_handshake_response header =
     (let ls = split_on (\<lambda>b. b = 0x0A) header in
      case parse_status (hd ls) of
        Inl e \<Rightarrow> Inl e
      | Inr st \<Rightarrow> parse_header_lines (tl ls) (empty_response st))"

definition has_header_token :: "string \<Rightarrow> string \<Rightarrow> bool" where
  "has_header_token val token =
     list_ex (\<lambda>part. eq_ignore_ascii_case part token) (map trim (split_on (\<lambda>c. c = CHR '','') val))"

definition validate_handshake_response :: "ws_handshake_response \<Rightarrow> string \<Rightarrow> ws_error + unit" where
  "validate_handshake_response r expected =
     (if \<not> (case upgrade r of Some v \<Rightarrow> eq_ignore_ascii_case v ''websocket'' | None \<Rightarrow> False)
      then Inl (Handshake ''missing_upgrade'')
      else if \<not> (case connection r of Some v \<Rightarrow> has_header_token v ''upgrade'' | None \<Rightarrow> False)
      then Inl (Handshake ''missing_connection_upgrade'')
      else case accept r of
        None \<Rightarrow> Inl (Handshake ''missing_ws_accept'')
      | Some v \<Rightarrow>
          if v \<noteq> expected then Inl (Handshake ''invalid_ws_accept'')
          else case protocol r of
            None \<Rightarrow> Inl (Handshake ''missing_ws_protocol'')
          | Some p \<Rightarrow>
              if p = ''binary'' then Inr () else Inl (Handshake ''unexpected_ws_protocol''))"

section \<open>Connecting\<close>

definition io_of_sum :: "'e + 'a \<Rightarrow> ('s, 'a, 'e) io" where
  "io_of_sum r = (case r of Inl e \<Rightarrow> io_err e | Inr a \<Rightarrow> io_ok a)"

definition perform_handshake :: "ws_net \<Rightarrow> string \<Rightarrow> (stream, ws_handshake, ws_error) io" where
  "perform_handshake net domain =
     io_bind (io_of_sum (build_handshake_request net domain)) (\<lambda>request.
     io_bind (wsio (write_all (bytes_of (req_payload request)))) (\<lambda>_.
     io_bind (wsio flush) (\<lambda>_.
     io_bind read_handshake_headers (\<lambda>header.
     io_bind (io_of_sum (parse_handshake_response header)) (\<lambda>response.
     io_bind (if status response = 101
              then io_of_sum (validate_handshake_response response (expected_accept request))
              else io_ok ()) (\<lambda>_.
       io_ok \<lparr>hs_status = status response,
              redirected = (301 \<le> status response \<and> status response < 400),
              hs_location = location response\<rparr>))))))"

definition connect_raw :: "ws_net \<Rightarrow> string \<Rightarrow> nat \<Rightarrow> ws_error + stream" where
  "connect_raw net domain timeout_dur =
     (case tcp_connect net domain 443 timeout_dur of
        None \<Rightarrow> Inl Timeout
      | Some (Inl e) \<Rightarrow> Inl (WsIo e)
      | Some (Inr tcp) \<Rightarrow>
          (case server_name net domain of
             Some err \<Rightarrow> Inl (Tls (''invalid server name: '' @ err))
           | None \<Rightarrow>
               (case tls_connect net domain tcp timeout_dur of
                  None \<Rightarrow> Inl Timeout
                | Some (Inl err) \<Rightarrow> Inl (Tls err)
                | Some (Inr tls) \<Rightarrow> Inr tls)))"

definition ws_connect :: "ws_net \<Rightarrow> string \<Rightarrow> nat \<Rightarrow> (stream, ws_error) outcome" where
  "ws_connect net domain timeout_dur =
     (case connect_raw net domain timeout_dur of
        Inl e \<Rightarrow> Err e
      | Inr s \<Rightarrow>
          (case perform_handshake net domain s of
             (Ok hs, s') \<Rightarrow> if hs_status hs \<noteq> 101 then Err (HttpStatus (hs_status hs) (hs_location hs)) else Ok s'
           | (Err e, s') \<Rightarrow> Err e
           | (Panic p, s') \<Rightarrow> Panic p
           | (Pending, s') \<Rightarrow> Pending))"

definition handshake :: "ws_net \<Rightarrow> string \<Rightarrow> string \<Rightarrow> (ws_handshake, ws_error) outcome" where
  "handshake net ip domain =
     (case connect_raw net domain 5000 of
        Inl e \<Rightarrow> Err e
      | Inr s \<Rightarrow> fst (perform_handshake net domain s))"

section \<open>Reading the response header\<close>

declare suffix_snoc [simp del]

lemma read_byte_Cons: "rx s = b # bs \<Longrightarrow> wsio read_byte s = (Ok (Some b), s\<lparr>rx := bs\<rparr>)"
  by (rule wsio_Ok) (simp add: read_byte_def)

lemma read_byte_SomeD:
  "wsio read_byte s = (Ok (Some b), s') \<Longrightarrow> rx s = b # rx s' \<and> s' = s\<lparr>rx := rx s'\<rparr>"
  by (drule wsio_OkD) (auto simp: read_byte_def at_rx_end_def split: list.splits rx_end.splits)

text \<open>No blank line ends within the first bytes of \<open>h\<close> behind position \<open>m\<close>.\<close>

definition no_end_before :: "nat \<Rightarrow> bytes \<Rightarrow> bool" where
  "no_end_before m h \<longleftrightarrow> (\<forall>k. m < k \<longrightarrow> k < length h \<longrightarrow> \<not> suffix header_end (take k h))"

lemma no_end_before_step:
  "no_end_before (length h) (h @ b # x) \<longleftrightarrow>
     (x = [] \<or> \<not> suffix header_end (h @ [b]) \<and> no_end_before (Suc (length h)) (h @ b # x))"
  (is "?l \<longleftrightarrow> ?r")
proof
  assume l: ?l
  have "\<not> suffix header_end (h @ [b])" if "x \<noteq> []"
    using l [unfolded no_end_before_def, rule_format, of "Suc (length h)"] that by simp
  with l show ?r by (auto simp: no_end_before_def)
next
  assume r: ?r
  show ?l unfolding no_end_before_def
  proof (intro allI impI)
    fix k assume k: "length h < k" "k < length (h @ b # x)"
    then have "x \<noteq> []" by auto
    show "\<not> suffix header_end (take k (h @ b # x))"
      using r k \<open>x \<noteq> []\<close> by (cases "k = Suc (length h)") (auto simp: no_end_before_def)
  qed
qed

lemma read_headers_from_sound:
  "read_headers_from hdr s = (Ok h, s') \<Longrightarrow> length hdr \<le> MAX_HANDSHAKE_HEADER_SIZE \<Longrightarrow>
   \<exists>x. h = hdr @ x \<and> rx s = x @ rx s' \<and> s' = s\<lparr>rx := rx s'\<rparr> \<and> length h \<le> MAX_HANDSHAKE_HEADER_SIZE
     \<and> no_end_before (length hdr) h"
proof (induction hdr s rule: read_headers_from.induct)
  case (1 hdr s)
  show ?case
  proof (cases "length hdr < MAX_HANDSHAKE_HEADER_SIZE")
    case False
    with "1.prems"(1) have "h = hdr" "s' = s" by (simp_all add: read_headers_from.simps [of hdr s])
    then show ?thesis using "1.prems" by (simp add: no_end_before_def)
  next
    case True
    with "1.prems"(1) obtain b s1 where b: "wsio read_byte s = (Ok (Some b), s1)"
      by (auto simp: read_headers_from.simps [of hdr s] split: prod.splits outcome.splits option.splits)
    note b' = read_byte_SomeD [OF b]
    show ?thesis
    proof (cases "suffix header_end (hdr @ [b])")
      case True
      with "1.prems"(1) b \<open>length hdr < _\<close> have "h = hdr @ [b]" "s' = s1"
        by (simp_all add: read_headers_from.simps [of hdr s])
      with b' \<open>length hdr < _\<close> show ?thesis by (simp add: no_end_before_step)
    next
      case False
      with "1.prems"(1) b \<open>length hdr < _\<close> have "read_headers_from (hdr @ [b]) s1 = (Ok h, s')"
        by (simp add: read_headers_from.simps [of hdr s])
      with "1.IH" [OF \<open>length hdr < _\<close> b [symmetric] refl refl False] \<open>length hdr < _\<close> obtain x where
        x: "h = (hdr @ [b]) @ x" "rx s1 = x @ rx s'" "s' = s1\<lparr>rx := rx s'\<rparr>"
          "length h \<le> MAX_HANDSHAKE_HEADER_SIZE" "no_end_before (Suc (length hdr)) h" by auto
      have "s' = s\<lparr>rx := rx s'\<rparr>" using x(3) b' by (metis stream.update_convs(1) stream.surjective)
      with x b' False show ?thesis
        by (intro exI [of _ "b # x"]) (simp add: no_end_before_step)
    qed
  qed
qed

lemma read_headers_from_complete:
  assumes "suffix header_end (hdr @ x)" "length (hdr @ x) \<le> MAX_HANDSHAKE_HEADER_SIZE" "x \<noteq> []"
    "no_end_before (length hdr) (hdr @ x)" "rx s = x @ rest"
  shows "read_headers_from hdr s = (Ok (hdr @ x), s\<lparr>rx := rest\<rparr>)"
  using assms
proof (induction x arbitrary: hdr s)
  case (Cons b x)
  have b: "wsio read_byte s = (Ok (Some b), s\<lparr>rx := x @ rest\<rparr>)"
    using Cons.prems(5) by (intro read_byte_Cons) simp
  show ?case
  proof (cases "x = []")
    case True
    with Cons.prems b show ?thesis by (simp add: read_headers_from.simps [of hdr s])
  next
    case False
    then have n: "\<not> suffix header_end (hdr @ [b])" "no_end_before (Suc (length hdr)) (hdr @ b # x)"
      using Cons.prems(4) by (simp_all add: no_end_before_step)
    from Cons.IH [of "hdr @ [b]" "s\<lparr>rx := x @ rest\<rparr>"] Cons.prems False n
    have "read_headers_from (hdr @ [b]) (s\<lparr>rx := x @ rest\<rparr>) = (Ok (hdr @ b # x), s\<lparr>rx := rest\<rparr>)" by simp
    with b n Cons.prems(2) show ?thesis by (simp add: read_headers_from.simps [of hdr s])
  qed
qed simp

lemma read_headers_from_oversized:
  assumes "length hdr + n = MAX_HANDSHAKE_HEADER_SIZE" "n \<le> length (rx s)"
    "\<forall>k. 0 < k \<longrightarrow> k \<le> n \<longrightarrow> \<not> suffix header_end (hdr @ take k (rx s))"
  shows "read_headers_from hdr s = (Ok (hdr @ take n (rx s)), s\<lparr>rx := drop n (rx s)\<rparr>)"
  using assms
proof (induction n arbitrary: hdr s)
  case 0
  then show ?case by (simp add: read_headers_from.simps [of hdr s])
next
  case (Suc n)
  then obtain b bs where rx: "rx s = b # bs" by (cases "rx s") auto
  have e: "\<not> suffix header_end (hdr @ [b])"
    using Suc.prems(3) [rule_format, of 1] rx by simp
  have "\<not> suffix header_end (hdr @ b # take k bs)" if "k \<le> n" for k
    using Suc.prems(3) [rule_format, of "Suc k"] rx that by simp
  with Suc.IH [of "hdr @ [b]" "s\<lparr>rx := bs\<rparr>"] Suc.prems(1,2) rx
  have "read_headers_from (hdr @ [b]) (s\<lparr>rx := bs\<rparr>) = (Ok (hdr @ b # take n bs), s\<lparr>rx := drop n bs\<rparr>)" by simp
  with e rx read_byte_Cons [OF rx] Suc.prems(1) show ?case
    by (simp add: read_headers_from.simps [of hdr s])
qed

lemma read_handshake_headers_OkD:
  assumes "read_handshake_headers s = (Ok h, s')"
  shows "rx s = h @ rx s'" "s' = s\<lparr>rx := rx s'\<rparr>" "length h \<le> 8192" "suffix header_end h" "no_end_before 0 h"
proof -
  from assms obtain h1 s1 where "read_headers_from [] s = (Ok h1, s1)"
    "(if suffix header_end h1 then io_ok h1 else io_err (Handshake ''oversized_handshake_headers'')) s1 = (Ok h, s')"
    unfolding read_handshake_headers_def by (blast elim: io_bind_OkE)
  then have r: "read_headers_from [] s = (Ok h, s')" "suffix header_end h" by (auto split: if_splits)
  with read_headers_from_sound [OF r(1)]
  show "rx s = h @ rx s'" "s' = s\<lparr>rx := rx s'\<rparr>" "length h \<le> 8192" "suffix header_end h" "no_end_before 0 h"
    by (simp_all add: MAX_HANDSHAKE_HEADER_SIZE_def)
qed

lemma read_handshake_headers_run:
  assumes "rx s = h @ rest" "length h \<le> 8192" "suffix header_end h" "no_end_before 0 h"
  shows "read_handshake_headers s = (Ok h, s\<lparr>rx := rest\<rparr>)"
proof -
  from assms(3) have "h \<noteq> []" by (auto simp: header_end_def)
  with assms have "read_headers_from [] s = (Ok h, s\<lparr>rx := rest\<rparr>)"
    using read_headers_from_complete [of "[]" h s rest] by (simp add: MAX_HANDSHAKE_HEADER_SIZE_def)
  with assms(3) show ?thesis by (simp add: read_handshake_headers_def)
qed

text \<open>
  C30. Reading the response header succeeds exactly when a blank line (CR LF CR LF) arrives
  within the first 8192 bytes; it returns the bytes up to and including the first blank line
  and leaves everything behind it, such as frames sent along with the header, unread.
\<close>

theorem read_handshake_headers_iff:
  "read_handshake_headers s = (Ok h, s') \<longleftrightarrow>
     rx s = h @ rx s' \<and> s' = s\<lparr>rx := rx s'\<rparr> \<and> length h \<le> 8192
     \<and> suffix header_end h \<and> no_end_before 0 h"
  using read_handshake_headers_OkD [of s h s'] read_handshake_headers_run [of s h "rx s'"] by auto

text \<open>
  A response whose first 8192 bytes contain no blank line is rejected as oversized, with
  exactly these 8192 bytes read: the header buffer never grows beyond the limit.
\<close>

theorem read_handshake_headers_oversized:
  assumes "8192 \<le> length (rx s)" "\<forall>k \<le> 8192. \<not> suffix header_end (take k (rx s))"
  shows "read_handshake_headers s = (Err (Handshake ''oversized_handshake_headers''), s\<lparr>rx := drop 8192 (rx s)\<rparr>)"
  using assms read_headers_from_oversized [of "[]" 8192 s]
  by (simp add: read_handshake_headers_def MAX_HANDSHAKE_HEADER_SIZE_def)

theorem read_handshake_headers_oversized_witness:
  "read_handshake_headers (open_stream (replicate 9000 97) Silent)
    = (Err (Handshake ''oversized_handshake_headers''), open_stream (replicate 808 97) Silent)"
proof -
  have "\<not> suffix header_end (replicate k 97)" for k
    using set_mono_suffix [of header_end "replicate k 97"] by (auto simp: header_end_def)
  then show ?thesis
    using read_handshake_headers_oversized [of "open_stream (replicate 9000 97) Silent"]
    by (simp add: open_stream_def)
qed

section \<open>Printing and parsing a response\<close>

text \<open>A response as servers write it: status line, header lines, blank line.\<close>

definition wf_header :: "string \<times> string \<Rightarrow> bool" where
  "wf_header h \<longleftrightarrow> (\<forall>c \<in> set (fst h). graphic c \<and> c \<noteq> CHR '':'') \<and> (\<forall>c \<in> set (snd h). printable c)
     \<and> (snd h = [] \<or> graphic (hd (snd h)) \<and> graphic (last (snd h)))"

definition header_text :: "string \<times> string \<Rightarrow> string" where
  "header_text h = fst h @ '': '' @ snd h"

definition status_text :: "u16 \<Rightarrow> string \<Rightarrow> string" where
  "status_text st phrase = ''HTTP/1.1 '' @ show_nat (unat st) @ '' '' @ phrase"

definition response_text :: "u16 \<Rightarrow> string \<Rightarrow> (string \<times> string) list \<Rightarrow> string" where
  "response_text st phrase hs =
     concat (map (\<lambda>l. l @ crlf) (status_text st phrase # map header_text hs)) @ crlf"

lemma graphic_printable: "graphic c \<Longrightarrow> printable c"
  by (simp add: graphic_def printable_def)

lemma printable_ascii: "printable c \<Longrightarrow> (of_char c :: nat) < 128"
  "printable c \<Longrightarrow> (word_of_nat (of_char c) :: byte) \<noteq> 0x0A"
  "printable c \<Longrightarrow> (word_of_nat (of_char c) :: byte) \<noteq> 0x0D"
  "printable c \<Longrightarrow> c \<noteq> CHR 0x0D"
  by (auto simp: printable_def word_unat_eq_iff)

lemma header_text_printable:
  assumes "wf_header h"
  shows "\<forall>c \<in> set (header_text h). printable c"
proof -
  have "\<forall>c \<in> set '': ''. printable c" by (simp add: printable_def)
  moreover have "\<forall>c \<in> set (fst h). printable c" "\<forall>c \<in> set (snd h). printable c"
    using assms graphic_printable by (auto simp: wf_header_def)
  ultimately show ?thesis unfolding header_text_def set_append by blast
qed

lemma show_nat_graphic: "\<forall>c \<in> set (show_nat n). graphic c"
  using show_nat_chars [of _ n] by (force simp: graphic_def)

lemma status_text_printable:
  assumes "\<forall>c \<in> set phrase. printable c"
  shows "\<forall>c \<in> set (status_text st phrase). printable c"
proof -
  have "\<forall>c \<in> set ''HTTP/1.1 ''. printable c" "\<forall>c \<in> set '' ''. printable c" by (simp_all add: printable_def)
  with assms show_nat_graphic graphic_printable show ?thesis unfolding status_text_def set_append by blast
qed

lemma printable_line:
  assumes "\<forall>c \<in> set s. printable c"
  shows "\<forall>c \<in> set (s @ [CHR 0x0D]). (of_char c :: nat) < 128"
    and "\<forall>b \<in> set (bytes_of (s @ [CHR 0x0D])). b \<noteq> 0x0A"
  using assms printable_ascii(1,2) by (auto simp: bytes_of_def)

lemma parse_status_text:
  assumes "\<forall>c \<in> set phrase. printable c"
  shows "parse_status (bytes_of (status_text st phrase @ [CHR 0x0D])) = Inr st"
proof -
  let ?r = "phrase @ [CHR 0x0D]"
  have l: "from_utf8_lossy (bytes_of (status_text st phrase @ [CHR 0x0D])) = status_text st phrase @ [CHR 0x0D]"
    by (intro from_utf8_lossy_ascii printable_line status_text_printable assms)
  have "split_whitespace (status_text st phrase @ [CHR 0x0D])
      = split_ws_from [] (''HTTP/1.1'' @ CHR '' '' # show_nat (unat st) @ CHR '' '' # ?r)"
    by (simp add: split_whitespace_def status_text_def)
  also have "\<dots> = ''HTTP/1.1'' # show_nat (unat st) # split_ws_from [] ?r"
    using split_ws_word [of "''HTTP/1.1''" "[]"] split_ws_word [OF show_nat_graphic, of "[]"] by (simp add: graphic_def)
  finally show ?thesis
    unfolding parse_status_def l by (simp add: parse_u16_show)
qed

lemma trim_end_matches_snoc:
  "s = [] \<or> last s \<noteq> c \<Longrightarrow> trim_end_matches_char c (s @ [c]) = s"
  by (cases s rule: rev_cases) (auto simp: trim_end_matches_char_def)

lemma parse_header_line:
  assumes "wf_header h"
  shows "parse_header_lines (bytes_of (header_text h @ [CHR 0x0D]) # ls) r
    = parse_header_lines ls (set_header (fst h) (snd h) r)"
proof -
  have ne: "header_text h \<noteq> []" by (simp add: header_text_def)
  have u: "from_utf8 (bytes_of (header_text h @ [CHR 0x0D])) = Some (header_text h @ [CHR 0x0D])"
    by (intro from_utf8_ascii printable_line header_text_printable assms)
  have "last (header_text h) \<noteq> CHR 0x0D"
    using header_text_printable [OF assms] last_in_set [OF ne] printable_ascii(4) by blast
  then have t: "trim_end_matches_char CHR 0x0D (header_text h @ [CHR 0x0D]) = header_text h"
    by (simp add: trim_end_matches_snoc)
  have s: "split_once CHR '':'' (header_text h) = Some (fst h, CHR '' '' # snd h)"
  proof -
    have "CHR '':'' \<notin> set (fst h)" using assms unfolding wf_header_def by blast
    from split_once_append [OF this, of "CHR '' '' # snd h"] show ?thesis by (simp add: header_text_def)
  qed
  have v: "trim (CHR '' '' # snd h) = snd h"
    using assms by (intro trim_space) (simp add: wf_header_def)
  have "bytes_of (header_text h @ [CHR 0x0D]) \<noteq> [0x0D]" "bytes_of (header_text h @ [CHR 0x0D]) \<noteq> []"
    using ne by (simp_all add: bytes_of_def)
  then show ?thesis by (simp only: parse_header_lines.simps u t s v option.case prod.case) simp
qed

lemma parse_header_lines_run:
  "\<forall>h \<in> set hs. wf_header h \<Longrightarrow>
   parse_header_lines (map (\<lambda>h. bytes_of (header_text h @ [CHR 0x0D])) hs @ [0x0D] # ls) r
     = Inr (fold (\<lambda>h. set_header (fst h) (snd h)) hs r)"
proof (induction hs arbitrary: r)
  case (Cons h hs)
  then have "wf_header h" by simp
  from parse_header_line [OF this] Cons show ?case by (simp only: list.map append_Cons fold_simps comp_apply) simp
qed simp

lemma response_lines:
  "bytes_of (response_text st phrase hs) = concat (map (\<lambda>l. l @ [0x0A])
     (bytes_of (status_text st phrase @ [CHR 0x0D])
      # map (\<lambda>h. bytes_of (header_text h @ [CHR 0x0D])) hs @ [[0x0D]]))"
  by (simp add: response_text_def crlf_def bytes_of_def map_concat comp_def)

lemma parse_response_text:
  assumes "\<forall>h \<in> set hs. wf_header h" "\<forall>c \<in> set phrase. printable c"
  shows "parse_handshake_response (bytes_of (response_text st phrase hs))
    = Inr (fold (\<lambda>h. set_header (fst h) (snd h)) hs (empty_response st))"
proof -
  let ?ls = "bytes_of (status_text st phrase @ [CHR 0x0D])
      # map (\<lambda>h. bytes_of (header_text h @ [CHR 0x0D])) hs @ [[0x0D]]"
  have "\<forall>l \<in> set ?ls. \<forall>b \<in> set l. b \<noteq> 0x0A"
    using assms printable_line(2) [OF status_text_printable [OF assms(2)], of st]
      printable_line(2) [OF header_text_printable] by (simp del: bytes_of_append) blast?
  then have "split_on (\<lambda>b. b = 0x0A) (bytes_of (response_text st phrase hs)) = ?ls @ [[]]"
    unfolding response_lines by (intro split_on_lines) simp_all
  then show ?thesis
    using parse_status_text [OF assms(2), of st] parse_header_lines_run [OF assms(1), of "[[]]"]
    by (simp add: parse_handshake_response_def Let_def del: bytes_of_append)
qed

text \<open>
  A response that is written with any status, any header lines (names of visible ASCII
  without a colon, values of printable ASCII) and a blank line is parsed to exactly this
  status and the last value of each of the five headers the client looks at, whatever the
  letter case of the names; other headers are skipped.
\<close>

theorem parse_handshake_response_roundtrip:
  assumes "\<forall>h \<in> set hs. wf_header h" "\<forall>c \<in> set phrase. printable c"
  shows "parse_handshake_response (bytes_of (response_text st phrase hs))
    = Inr (fold (\<lambda>h. set_header (fst h) (snd h)) hs (empty_response st))"
  using assms by (rule parse_response_text)

definition demo_headers :: "string \<Rightarrow> (string \<times> string) list" where
  "demo_headers acc =
     [(''Upgrade'', ''WebSocket''), (''Connection'', ''keep-alive, Upgrade''), (''Server'', ''x''),
      (''Sec-WebSocket-Accept'', acc), (''Sec-WebSocket-Protocol'', ''binary'')]"

theorem parse_handshake_response_roundtrip_witness:
  "parse_handshake_response (bytes_of (response_text 101 ''Switching Protocols'' (demo_headers ''abc='')))
    = Inr \<lparr>status = 101, location = None, upgrade = Some ''WebSocket'', connection = Some ''keep-alive, Upgrade'',
        accept = Some ''abc='', protocol = Some ''binary''\<rparr>"
proof -
  have "\<forall>h \<in> set (demo_headers ''abc=''). wf_header h" "\<forall>c \<in> set ''Switching Protocols''. printable c"
    by code_simp+
  from parse_handshake_response_roundtrip [OF this, of 101]
  have "parse_handshake_response (bytes_of (response_text 101 ''Switching Protocols'' (demo_headers ''abc='')))
      = Inr (fold (\<lambda>h. set_header (fst h) (snd h)) (demo_headers ''abc='') (empty_response 101))" .
  moreover have "fold (\<lambda>h. set_header (fst h) (snd h)) (demo_headers ''abc='') (empty_response 101)
      = \<lparr>status = 101, location = None, upgrade = Some ''WebSocket'', connection = Some ''keep-alive, Upgrade'',
        accept = Some ''abc='', protocol = Some ''binary''\<rparr>" by code_simp
  ultimately show ?thesis by (simp only:)
qed

section \<open>The handshake as a whole\<close>

text \<open>What makes a response an accepted upgrade.\<close>

definition upgraded :: "ws_handshake_response \<Rightarrow> string \<Rightarrow> bool" where
  "upgraded r acc \<longleftrightarrow>
     (\<exists>v. upgrade r = Some v \<and> eq_ignore_ascii_case v ''websocket'')
     \<and> (\<exists>v. connection r = Some v \<and> has_header_token v ''upgrade'')
     \<and> accept r = Some acc \<and> protocol r = Some ''binary''"

lemma validate_iff: "validate_handshake_response r acc = Inr () \<longleftrightarrow> upgraded r acc"
  by (auto simp: validate_handshake_response_def upgraded_def split: option.splits if_splits)

lemma io_of_sum_OkD: "io_of_sum r s = (Ok a, s') \<Longrightarrow> r = Inr a \<and> s' = s"
  by (auto simp: io_of_sum_def split: sum.splits)

lemma io_of_sum_Inr [simp]: "io_of_sum (Inr a) s = (Ok a, s)"
  by (simp add: io_of_sum_def)

definition request_for :: "ws_net \<Rightarrow> string \<Rightarrow> bytes \<Rightarrow> ws_handshake_request" where
  "request_for net domain key = build_handshake_request_with_key net domain (base64_encode net key)"

lemma build_handshake_request_iff:
  "build_handshake_request net domain = Inr req \<longleftrightarrow> (\<exists>key. getrandom16 net = Inr key \<and> req = request_for net domain key)"
  by (auto simp: build_handshake_request_def websocket_key_def request_for_def split: sum.split)

lemma wsio_write_OkD: "wsio (write_all bs) s = (Ok u, s') \<Longrightarrow> rx s' = rx s \<and> tx s' = tx s @ bs"
  by (drule wsio_OkD) (auto dest: write_all_OkD)

lemma perform_handshake_OkD:
  assumes "perform_handshake net domain s = (Ok hs, s')"
  shows "\<exists>key h r. getrandom16 net = Inr key
    \<and> tx s' = tx s @ bytes_of (req_payload (request_for net domain key))
    \<and> rx s = h @ rx s' \<and> parse_handshake_response h = Inr r
    \<and> suffix header_end h \<and> length h \<le> MAX_HANDSHAKE_HEADER_SIZE \<and> no_end_before 0 h
    \<and> (status r = 101 \<longrightarrow> upgraded r (websocket_accept net (base64_encode net key)))
    \<and> hs = \<lparr>hs_status = status r, redirected = (301 \<le> status r \<and> status r < 400), hs_location = location r\<rparr>"
proof -
  from assms obtain req s0 s1 h s2 r u s3 where
    0: "io_of_sum (build_handshake_request net domain) s = (Ok req, s0)"
    and 1: "wsio (write_all (bytes_of (req_payload req))) s0 = (Ok (), s1)"
    and 2: "read_handshake_headers s1 = (Ok h, s2)"
    and 3: "io_of_sum (parse_handshake_response h) s2 = (Ok r, s3)"
    and 4: "(if status r = 101 then io_of_sum (validate_handshake_response r (expected_accept req)) else io_ok ()) s3 = (Ok u, s')"
    and hs: "hs = \<lparr>hs_status = status r, redirected = (301 \<le> status r \<and> status r < 400), hs_location = location r\<rparr>"
    unfolding perform_handshake_def by (auto elim!: io_bind_OkE)
  from io_of_sum_OkD [OF 0] obtain key where key: "getrandom16 net = Inr key" "req = request_for net domain key" "s0 = s"
    by (auto simp: build_handshake_request_iff)
  have acc: "expected_accept req = websocket_accept net (base64_encode net key)"
    by (simp add: key(2) request_for_def build_handshake_request_with_key_def)
  note w = wsio_write_OkD [OF 1]
  note rd = read_handshake_headers_OkD [OF 2]
  then have "tx s2 = tx s1" by (metis stream.select_convs(3) stream.surjective stream.update_convs(1))
  moreover note io_of_sum_OkD [OF 3]
  moreover from 4 have "s' = s3" "status r = 101 \<longrightarrow> upgraded r (expected_accept req)"
    by (auto dest: io_of_sum_OkD simp: validate_iff split: if_splits)
  ultimately have "getrandom16 net = Inr key \<and> tx s' = tx s @ bytes_of (req_payload (request_for net domain key))
    \<and> rx s = h @ rx s' \<and> parse_handshake_response h = Inr r
    \<and> suffix header_end h \<and> length h \<le> MAX_HANDSHAKE_HEADER_SIZE \<and> no_end_before 0 h
    \<and> (status r = 101 \<longrightarrow> upgraded r (websocket_accept net (base64_encode net key)))"
    using key acc w rd by (simp add: MAX_HANDSHAKE_HEADER_SIZE_def)
  with hs show ?thesis by blast
qed

text \<open>
  C21. A WebSocket connection is only ever established after a complete upgrade: the request
  for this host was written, the bytes consumed since are one response header that ends with its
  first blank line and is no longer than 8192 bytes, its status is 101, it upgrades to a websocket, and its accept value is the
  digest of the very key that was sent, with the subprotocol \<open>binary\<close>.
\<close>

theorem ws_connect_sound:
  assumes "ws_connect net domain t = Ok s'"
  shows "\<exists>s key h r. connect_raw net domain t = Inr s \<and> getrandom16 net = Inr key
    \<and> tx s' = tx s @ bytes_of (req_payload (request_for net domain key))
    \<and> rx s = h @ rx s' \<and> suffix header_end h \<and> length h \<le> 8192
    \<and> (\<forall>n < length h. \<not> suffix header_end (take n h))
    \<and> parse_handshake_response h = Inr r \<and> status r = 101
    \<and> upgraded r (websocket_accept net (base64_encode net key))"
proof -
  from assms obtain s hs where s: "connect_raw net domain t = Inr s"
    and p: "perform_handshake net domain s = (Ok hs, s')" and st: "hs_status hs = 101"
    by (auto simp: ws_connect_def split: sum.splits prod.splits outcome.splits if_splits)
  from perform_handshake_OkD [OF p] obtain key h r where h: "getrandom16 net = Inr key"
    "tx s' = tx s @ bytes_of (req_payload (request_for net domain key))"
    "rx s = h @ rx s'" "parse_handshake_response h = Inr r"
    "suffix header_end h" "length h \<le> MAX_HANDSHAKE_HEADER_SIZE" "no_end_before 0 h"
    "status r = 101 \<longrightarrow> upgraded r (websocket_accept net (base64_encode net key))" "status r = hs_status hs"
    by auto
  have "n < length h \<Longrightarrow> \<not> suffix header_end (take n h)" for n
    using h(5,7) by (cases "n = 0") (auto simp: no_end_before_def header_end_def)
  with h s st have "connect_raw net domain t = Inr s \<and> getrandom16 net = Inr key
    \<and> tx s' = tx s @ bytes_of (req_payload (request_for net domain key))
    \<and> rx s = h @ rx s' \<and> suffix header_end h \<and> length h \<le> 8192
    \<and> (\<forall>n < length h. \<not> suffix header_end (take n h))
    \<and> parse_handshake_response h = Inr r \<and> status r = 101
    \<and> upgraded r (websocket_accept net (base64_encode net key))"
    by (simp add: MAX_HANDSHAKE_HEADER_SIZE_def)
  then show ?thesis by blast
qed

section \<open>The first blank line of a written response\<close>

definition crlf_lines :: "bytes list \<Rightarrow> bytes" where
  "crlf_lines ls = concat (map (\<lambda>l. l @ [0x0D, 0x0A]) ls) @ [0x0D, 0x0A]"

lemma crlf_lines_Cons [simp]: "crlf_lines (l # ls) = l @ 0x0D # 0x0A # crlf_lines ls"
  by (simp add: crlf_lines_def)

lemma blank_line_last:
  assumes "\<forall>l \<in> set ls. l \<noteq> [] \<and> 0x0D \<notin> set l" "crlf_lines ls = x @ header_end @ y"
  shows "y = []"
  using assms
proof (induction ls arbitrary: x)
  case Nil
  then have "length (x @ header_end @ y) = 2" by (simp add: crlf_lines_def flip: Nil.prems(2))
  then show ?case by (simp add: header_end_def)
next
  case (Cons l ls)
  define h where "h = l @ 0x0D # 0x0A # crlf_lines ls"
  have h: "h = x @ header_end @ y" using Cons.prems(2) by (simp add: h_def)
  have at: "h ! length x = 0x0D" "h ! (length x + 2) = 0x0D"
    by (simp_all add: h header_end_def nth_append)
  have "\<not> length x < length l"
  proof
    assume i: "length x < length l"
    with at(1) have "l ! length x = 0x0D" by (simp add: h_def nth_append)
    with nth_mem [OF i] Cons.prems(1) show False by simp
  qed
  moreover have "length x \<noteq> length l + 1" using at(1) by (auto simp: h_def nth_append)
  ultimately consider "length x = length l" | "length l + 2 \<le> length x" by linarith
  then show ?case
  proof cases
    case 1
    have "ls = []"
    proof (rule ccontr)
      assume "ls \<noteq> []"
      then obtain m ms where "ls = m # ms" by (cases ls) auto
      with 1 at(2) Cons.prems(1) show False by (cases m) (auto simp: h_def nth_append)
    qed
    with h have "l @ header_end = x @ header_end @ y" by (simp add: h_def crlf_lines_def header_end_def)
    with 1 show ?thesis by simp
  next
    case 2
    have "crlf_lines ls = drop (length l + 2) h" by (simp add: h_def)
    also have "\<dots> = drop (length l + 2) x @ header_end @ y" using 2 by (simp add: h)
    finally show ?thesis using Cons by simp
  qed
qed

lemma crlf_lines_first_end:
  assumes "\<forall>l \<in> set ls. l \<noteq> [] \<and> 0x0D \<notin> set l" "ls \<noteq> []"
  shows "suffix header_end (crlf_lines ls) \<and> no_end_before 0 (crlf_lines ls)"
proof
  have "\<exists>x. crlf_lines ls = x @ header_end"
    using assms(2) by (cases ls rule: rev_cases) (simp_all add: crlf_lines_def header_end_def)
  then show "suffix header_end (crlf_lines ls)" by (auto simp: suffix_def)
  show "no_end_before 0 (crlf_lines ls)"
    unfolding no_end_before_def
  proof (intro allI impI notI)
    fix k assume k: "k < length (crlf_lines ls)" "suffix header_end (take k (crlf_lines ls))"
    then obtain x where "take k (crlf_lines ls) = x @ header_end" by (auto simp: suffix_def)
    then have "crlf_lines ls = x @ header_end @ drop k (crlf_lines ls)"
      by (metis append.assoc append_take_drop_id)
    with blank_line_last [OF assms(1)] k(1) show False by force
  qed
qed

lemma response_first_end:
  assumes "\<forall>h \<in> set hs. wf_header h" "\<forall>c \<in> set phrase. printable c"
  shows "suffix header_end (bytes_of (response_text st phrase hs))
    \<and> no_end_before 0 (bytes_of (response_text st phrase hs))"
proof -
  let ?ls = "map bytes_of (status_text st phrase # map header_text hs)"
  have "bytes_of (response_text st phrase hs) = crlf_lines ?ls"
    by (simp add: response_text_def crlf_lines_def crlf_def bytes_of_def map_concat comp_def)
  moreover have "l \<noteq> [] \<and> 0x0D \<notin> set l" if "l \<in> set ?ls" for l
  proof -
    from that obtain u where "l = bytes_of u" "u = status_text st phrase \<or> u \<in> header_text ` set hs" by auto
    moreover from this have "\<forall>c \<in> set u. printable c"
      using assms status_text_printable header_text_printable by blast
    moreover have "u \<noteq> []"
      using calculation(2) by (auto simp: status_text_def header_text_def)
    ultimately show ?thesis using printable_ascii(3) by (fastforce simp: bytes_of_def)
  qed
  ultimately show ?thesis using crlf_lines_first_end [of ?ls] by simp
qed

lemma perform_handshake_run:
  assumes "getrandom16 net = Inr key" "writable s"
    and "\<forall>h \<in> set hs. wf_header h" "\<forall>c \<in> set phrase. printable c"
    and "rx s = bytes_of (response_text st phrase hs) @ rest" "length (response_text st phrase hs) \<le> 8192"
    and "r = fold (\<lambda>h. set_header (fst h) (snd h)) hs (empty_response st)"
    and "st = 101 \<longrightarrow> upgraded r (websocket_accept net (base64_encode net key))"
  shows "perform_handshake net domain s =
    (Ok \<lparr>hs_status = st, redirected = (301 \<le> st \<and> st < 400), hs_location = location r\<rparr>,
     s\<lparr>rx := rest, tx := tx s @ bytes_of (req_payload (request_for net domain key))\<rparr>)"
proof -
  define h where "h = bytes_of (response_text st phrase hs)"
  let ?req = "request_for net domain key" and ?h = h
  let ?s1 = "s\<lparr>tx := tx s @ bytes_of (req_payload ?req)\<rparr>"
  have 0: "build_handshake_request net domain = Inr ?req"
    using assms(1) by (simp add: build_handshake_request_iff)
  have 1: "wsio (write_all (bytes_of (req_payload ?req))) s = (Ok (), ?s1)"
    using assms(2) by (intro wsio_Ok) simp
  have 2: "read_handshake_headers ?s1 = (Ok ?h, ?s1\<lparr>rx := rest\<rparr>)"
    using assms(5,6) response_first_end [OF assms(3,4), of st] by (intro read_handshake_headers_run) (simp_all add: h_def)
  have 3: "parse_handshake_response ?h = Inr r"
    using parse_response_text [OF assms(3,4)] assms(7) by (simp add: h_def)
  have st: "status r = st"
  proof -
    have "status (fold (\<lambda>h. set_header (fst h) (snd h)) hs q) = status q" for q
      by (induction hs arbitrary: q) (simp_all add: set_header_def)
    then show ?thesis using assms(7) by (simp add: empty_response_def)
  qed
  have "expected_accept ?req = websocket_accept net (base64_encode net key)"
    by (simp add: request_for_def build_handshake_request_with_key_def)
  then have 4: "(if status r = 101 then io_of_sum (validate_handshake_response r (expected_accept ?req))
      else io_ok ()) = io_ok ()"
    using assms(8) st by (auto simp: validate_iff [THEN iffD2] fun_eq_iff)
  show ?thesis
    unfolding perform_handshake_def
    by (simp add: io_bind_def 0 1 2 3 4 st [symmetric] del: if_split)
qed

text \<open>
  C22. A server that answers the request with a well-formed response of at most 8192 bytes is
  understood: the request for this host and key is all that is written, the status and
  location of the response are reported, and everything behind the blank line stays on the
  stream for the frame reader. With status 101 this needs the headers of a valid upgrade for
  the key; other statuses are reported without further checks.
\<close>

theorem perform_handshake_complete:
  assumes "getrandom16 net = Inr key" "writable s"
    and "\<forall>h \<in> set hs. wf_header h" "\<forall>c \<in> set phrase. printable c"
    and "rx s = bytes_of (response_text st phrase hs) @ rest" "length (response_text st phrase hs) \<le> 8192"
    and "r = fold (\<lambda>h. set_header (fst h) (snd h)) hs (empty_response st)"
    and "st = 101 \<longrightarrow> upgraded r (websocket_accept net (base64_encode net key))"
  shows "perform_handshake net domain s =
    (Ok \<lparr>hs_status = st, redirected = (301 \<le> st \<and> st < 400), hs_location = location r\<rparr>,
     s\<lparr>rx := rest, tx := tx s @ bytes_of (req_payload (request_for net domain key))\<rparr>)"
  using assms by (rule perform_handshake_run)

definition demo_net :: "stream \<Rightarrow> ws_net" where
  "demo_net s = \<lparr>tcp_connect = (\<lambda>_ _ _. Some (Inr s)), server_name = (\<lambda>_. None),
     tls_connect = (\<lambda>_ tcp _. Some (Inr tcp)), getrandom16 = Inr (replicate 16 7),
     sha1 = (\<lambda>bs. take 20 bs), base64_encode = (\<lambda>bs. map (\<lambda>b. if b = 7 then CHR ''H'' else CHR ''x'') bs)\<rparr>"

definition demo_accept :: string where
  "demo_accept = websocket_accept (demo_net (open_stream [] Eof)) (replicate 16 CHR ''H'')"

definition demo_stream :: stream where
  "demo_stream = open_stream (bytes_of (response_text 101 ''OK'' (demo_headers demo_accept)) @ [0x82, 0]) Silent"

lemma demo_upgrade:
  "\<forall>h \<in> set (demo_headers demo_accept). wf_header h" "\<forall>c \<in> set ''OK''. printable c"
  "length (response_text 101 ''OK'' (demo_headers demo_accept)) \<le> 8192"
  "base64_encode (demo_net s) (replicate 16 7) = replicate 16 CHR ''H''"
  "websocket_accept (demo_net s) (replicate 16 CHR ''H'') = demo_accept"
  "getrandom16 (demo_net s) = Inr (replicate 16 7)"
  "connect_raw (demo_net s) domain t = Inr s"
proof -
  show "\<forall>h \<in> set (demo_headers demo_accept). wf_header h" by code_simp
  show "\<forall>c \<in> set ''OK''. printable c" by code_simp
  show "length (response_text 101 ''OK'' (demo_headers demo_accept)) \<le> 8192" by code_simp
  show "base64_encode (demo_net s) (replicate 16 7) = replicate 16 CHR ''H''"
    "websocket_accept (demo_net s) (replicate 16 CHR ''H'') = demo_accept"
    "getrandom16 (demo_net s) = Inr (replicate 16 7)"
    by (simp_all add: demo_net_def demo_accept_def websocket_accept_def)
  show "connect_raw (demo_net s) domain t = Inr s"
    by (simp add: connect_raw_def demo_net_def)
qed

lemma demo_upgraded:
  "upgraded (fold (\<lambda>h. set_header (fst h) (snd h)) (demo_headers demo_accept) (empty_response 101)) demo_accept"
proof -
  have "fold (\<lambda>h. set_header (fst h) (snd h)) (demo_headers demo_accept) (empty_response 101)
      = \<lparr>status = 101, location = None, upgrade = Some ''WebSocket'', connection = Some ''keep-alive, Upgrade'',
        accept = Some demo_accept, protocol = Some ''binary''\<rparr>" by code_simp
  moreover have "eq_ignore_ascii_case ''WebSocket'' ''websocket''" "has_header_token ''keep-alive, Upgrade'' ''upgrade''"
    by code_simp+
  ultimately show ?thesis by (simp add: upgraded_def)
qed

theorem perform_handshake_complete_witness:
  "hs_status (case fst (perform_handshake (demo_net demo_stream) ''kws2.web.telegram.org'' demo_stream) of Ok h \<Rightarrow> h) = 101
   \<and> rx (snd (perform_handshake (demo_net demo_stream) ''kws2.web.telegram.org'' demo_stream)) = [0x82, 0]"
  using perform_handshake_complete [OF demo_upgrade(6) [of demo_stream], of demo_stream "demo_headers demo_accept" "''OK''" 101 "[0x82, 0]"
      _ "''kws2.web.telegram.org''"] demo_upgrade(1-3) demo_upgrade(4,5) [of demo_stream] demo_upgraded
  by (simp add: demo_stream_def)

definition demo_open :: "string \<Rightarrow> stream" where
  "demo_open domain = demo_stream\<lparr>rx := [0x82, 0],
     tx := bytes_of (req_payload (request_for (demo_net demo_stream) domain (replicate 16 7)))\<rparr>"

lemma demo_connect: "ws_connect (demo_net demo_stream) domain t = Ok (demo_open domain)"
  using perform_handshake_run [OF demo_upgrade(6) [of demo_stream], of demo_stream "demo_headers demo_accept" "''OK''" 101 "[0x82, 0]"
      _ domain] demo_upgrade(1-3) demo_upgrade(4,5) [of demo_stream] demo_upgraded
  by (auto simp: ws_connect_def demo_upgrade(7) demo_open_def demo_stream_def)

definition demo_gone :: ws_net where
  "demo_gone = demo_net (open_stream (bytes_of (response_text 404 ''Not Found'' [])) Eof)"

lemma demo_gone_connect: "ws_connect demo_gone domain t = Err (HttpStatus 404 None)"
proof -
  let ?s = "open_stream (bytes_of (response_text 404 ''Not Found'' [])) Eof"
  have "\<forall>c \<in> set ''Not Found''. printable c" "length (response_text 404 ''Not Found'' []) \<le> 8192" by code_simp+
  then have "fst (perform_handshake demo_gone domain ?s)
      = Ok \<lparr>hs_status = 404, redirected = False, hs_location = None\<rparr>"
    using perform_handshake_run [OF demo_upgrade(6) [of ?s], of ?s "[]" "''Not Found''" 404 "[]" _ domain]
    by (simp add: demo_gone_def empty_response_def)
  then show ?thesis
    by (auto simp: ws_connect_def demo_gone_def demo_upgrade(7) split: prod.splits)
qed

theorem ws_connect_sound_witness:
  "\<exists>h r. bytes_of (response_text 101 ''OK'' (demo_headers demo_accept)) @ [0x82, 0] = h @ [0x82, 0]
     \<and> suffix header_end h \<and> length h \<le> 8192 \<and> parse_handshake_response h = Inr r \<and> status r = 101 \<and> upgraded r demo_accept"
proof -
  from ws_connect_sound [OF demo_connect, of "''kws2.web.telegram.org''" 10000] obtain h r
    where "rx demo_stream = h @ [0x82, 0]" "suffix header_end h" "length h \<le> 8192" "parse_handshake_response h = Inr r" "status r = 101" "upgraded r demo_accept"
    using demo_upgrade(4-7) [of demo_stream] by (auto simp: demo_open_def)
  then show ?thesis by (auto simp: demo_stream_def)
qed

text \<open>
  C36. The connection timeout does not cover the HTTP exchange: when the TCP and TLS
  connections succeed in time and the server then stays silent, connecting never returns,
  whatever the timeout.
\<close>

theorem ws_connect_silent_server_hangs:
  assumes "connect_raw net domain t = Inr s" "writable s" "rx s = []" "rx_end s = Silent"
    and "getrandom16 net = Inr key"
  shows "ws_connect net domain t = Pending"
proof -
  let ?w = "bytes_of (req_payload (request_for net domain key))"
  let ?s = "s\<lparr>tx := tx s @ ?w\<rparr>"
  have "wsio read_byte ?s = (Pending, ?s)"
    using assms(3,4) by (simp add: wsio_def io_map_err_def read_byte_def at_rx_end_def)
  then have "read_handshake_headers ?s = (Pending, ?s)"
    by (simp add: read_handshake_headers_def io_bind_def read_headers_from.simps [of "[]"] MAX_HANDSHAKE_HEADER_SIZE_def)
  moreover have "wsio (write_all ?w) s = (Ok (), ?s)" using assms(2) by (intro wsio_Ok) simp
  moreover have "build_handshake_request net domain = Inr (request_for net domain key)"
    using assms(5) by (simp add: build_handshake_request_iff)
  ultimately have "perform_handshake net domain s = (Pending, ?s)"
    unfolding perform_handshake_def by (simp add: io_bind_def)
  with assms(1) show ?thesis by (simp add: ws_connect_def)
qed

theorem ws_connect_silent_server_hangs_witness:
  "ws_connect (demo_net (open_stream [] Silent)) ''kws2.web.telegram.org'' 10000 = Pending"
  using ws_connect_silent_server_hangs [OF demo_upgrade(7), of "open_stream [] Silent" "replicate 16 7" "''kws2.web.telegram.org''" 10000]
    demo_upgrade(6) [of "open_stream [] Silent"] by simp

end
