(* ===== verification/Relay.thy ===== *)
theory Relay
  imports Splitter Ws_Frame
begin

text \<open>
  The relays (\<open>modules/relay.rs\<close>). \<open>bridge_ws_tcp\<close> runs two loops concurrently that share
  the WebSocket writer behind a mutex: one from the client to the WebSocket, one back. Each
  turn of a loop is one function on the state of the bridge; a schedule says which loop
  moves next and how many bytes a read of the client gets. A turn that writes holds the lock
  from its first to its last frame, so turns are the unit of interleaving. A turn that waits
  for bytes which have not arrived is not enabled. A write or a shutdown whose peer never makes
  room ends its loop with \<open>Some Pending\<close>: the loop is blocked for ever; if it holds the lock
  (\<open>writer_locked\<close>), the other loop is blocked as soon as it needs the lock. Counters are 64
  bits wide and wrap.

  The random draws for frame masks are numbered; \<open>rnds i\<close> is the result of draw \<open>i\<close>.
  Setting up a TCP connection and \<open>copy_bidirectional\<close> are the runtime's: they are
  parameters of \<open>bridge_tcp_tcp_with_prelude\<close>.
\<close>

record bridge_stats =
  st_bytes :: u64
  st_packets :: u64
  end_reason :: string

text \<open>\<open>io::Error::other\<close> around an error of the WebSocket, or an error of the TCP side itself.\<close>

datatype bridge_error = ClientIo io_error | WsOther ws_error

record 'c bridge =
  client :: stream
  ws :: stream
  draws :: nat
  up_splitter :: "'c mtproto_message_splitter option"
  up_stats :: bridge_stats
  up_result :: "(bridge_stats, bridge_error) outcome option"
  down_stats :: bridge_stats
  down_result :: "(bridge_stats, bridge_error) outcome option"
  writer_locked :: bool

definition READ_BUF :: nat where
  "READ_BUF = 32 * 1024"

primrec send_parts :: "(nat \<Rightarrow> bytes option) \<Rightarrow> nat \<Rightarrow> bytes list \<Rightarrow> (stream, unit, ws_error) io" where
  "send_parts rnds k [] = io_ok ()"
| "send_parts rnds k (part # parts) =
     io_bind (ws_send (rnds k) part) (\<lambda>_. send_parts rnds (Suc k) parts)"

fun is_pending :: "('a, 'e) outcome \<Rightarrow> bool" where
  "is_pending Pending = True"
| "is_pending _ = False"

text \<open>How a loop goes on after an operation: with \<open>Ok\<close> it continues, otherwise it ends.\<close>

fun loop_end :: "('e \<Rightarrow> bridge_error) \<Rightarrow> ('a, 'e) outcome \<Rightarrow> (bridge_stats, bridge_error) outcome option" where
  "loop_end f (Ok a) = None"
| "loop_end f (Err e) = Some (Err (f e))"
| "loop_end f (Panic p) = Some (Panic p)"
| "loop_end f Pending = Some Pending"

definition count :: "nat \<Rightarrow> bridge_stats \<Rightarrow> bridge_stats" where
  "count n st = st\<lparr>st_bytes := st_bytes st + word_of_nat n, st_packets := st_packets st + 1\<rparr>"

definition split_parts ::
    "'c cipher_api \<Rightarrow> 'c mtproto_message_splitter option \<Rightarrow> bytes
      \<Rightarrow> bytes list \<times> 'c mtproto_message_splitter option" where
  "split_parts C osp chunk =
     (case osp of
        Some sp \<Rightarrow> (fst (split_chunk C sp chunk), Some (snd (split_chunk C sp chunk)))
      | None \<Rightarrow> ([chunk], None))"

section \<open>From the client to the WebSocket\<close>

definition up_finish :: "'c bridge \<Rightarrow> 'c bridge" where
  "up_finish b =
     (if writer_locked b then b\<lparr>up_result := Some Pending\<rparr>
      else case ws_close (ws b) of (r, w) \<Rightarrow>
        b\<lparr>ws := w,
          writer_locked := is_pending r,
          up_result := (case loop_end WsOther r of
             None \<Rightarrow> Some (Ok ((up_stats b)\<lparr>end_reason := ''client_eof''\<rparr>)) | Some e \<Rightarrow> Some e)\<rparr>)"

text \<open>A chunk is read and counted before the lock is taken.\<close>

definition up_read :: "bytes \<Rightarrow> 'c bridge \<Rightarrow> 'c bridge" where
  "up_read chunk b = b\<lparr>client := (client b)\<lparr>rx := drop (length chunk) (rx (client b))\<rparr>,
     up_stats := count (length chunk) (up_stats b)\<rparr>"

definition up_chunk :: "'c cipher_api \<Rightarrow> (nat \<Rightarrow> bytes option) \<Rightarrow> bytes \<Rightarrow> 'c bridge \<Rightarrow> 'c bridge" where
  "up_chunk C rnds chunk b =
     (if writer_locked b then (up_read chunk b)\<lparr>up_result := Some Pending\<rparr>
      else case split_parts C (up_splitter b) chunk of (parts, sp) \<Rightarrow>
      case send_parts rnds (draws b) parts (ws b) of (r, w) \<Rightarrow>
        (up_read chunk b)
         \<lparr>ws := w,
          draws := draws b + length parts,
          up_splitter := sp,
          writer_locked := is_pending r,
          up_result := loop_end WsOther r\<rparr>)"

text \<open>One turn: a read that gets \<open>n\<close> bytes, at least one and at most a buffer, or the end.\<close>

definition up_turn :: "'c cipher_api \<Rightarrow> (nat \<Rightarrow> bytes option) \<Rightarrow> nat \<Rightarrow> 'c bridge \<Rightarrow> 'c bridge option" where
  "up_turn C rnds n b =
     (if up_result b \<noteq> None then None
      else if rx (client b) \<noteq> [] then
        Some (up_chunk C rnds (take (max 1 (min n READ_BUF)) (rx (client b))) b)
      else case rx_end (client b) of
        Eof \<Rightarrow> Some (up_finish b)
      | RxError e \<Rightarrow> Some (b\<lparr>up_result := Some (Err (ClientIo e))\<rparr>)
      | Silent \<Rightarrow> None)"

section \<open>From the WebSocket to the client\<close>

definition close_reason :: "ws_close_info \<Rightarrow> string" where
  "close_reason info =
     ''ws_close(code='' @ (case code info of Some c \<Rightarrow> show_nat (unat c) | None \<Rightarrow> ''none'')
     @ '',reason='' @ (case reason info of Some r \<Rightarrow> r | None \<Rightarrow> ''none'') @ '')''"

definition down_finish :: "string \<Rightarrow> 'c bridge \<Rightarrow> 'c bridge" where
  "down_finish why b = (case shutdown (client b) of (r, c) \<Rightarrow>
     b\<lparr>client := c,
       down_result := (case loop_end ClientIo r of
          None \<Rightarrow> Some (Ok ((down_stats b)\<lparr>end_reason := why\<rparr>)) | Some e \<Rightarrow> Some e)\<rparr>)"

definition down_turn :: "(nat \<Rightarrow> bytes option) \<Rightarrow> 'c bridge \<Rightarrow> 'c bridge option" where
  "down_turn rnds b =
     (if down_result b \<noteq> None then None
      else case recv_frame (ws b) of
        (Ok (Some (InBinary data)), w) \<Rightarrow>
          (case write_all data (client b) of (r, c) \<Rightarrow>
             Some (b\<lparr>client := c, ws := w, down_stats := count (length data) (down_stats b),
                     down_result := loop_end ClientIo r\<rparr>))
      | (Ok (Some (InPing payload)), w) \<Rightarrow>
          (if writer_locked b then Some (b\<lparr>ws := w, down_result := Some Pending\<rparr>)
           else case send_control_frame (rnds (draws b)) 0xA payload w of (r, w') \<Rightarrow>
             Some (b\<lparr>ws := w', draws := Suc (draws b), writer_locked := is_pending r,
                     down_result := loop_end WsOther r\<rparr>))
      | (Ok (Some (InClose info)), w) \<Rightarrow> Some (down_finish (close_reason info) (b\<lparr>ws := w\<rparr>))
      | (Ok None, w) \<Rightarrow> Some (down_finish ''ws_eof'' (b\<lparr>ws := w\<rparr>))
      | (Err e, w) \<Rightarrow> Some (b\<lparr>ws := w, down_result := Some (Err (WsOther e))\<rparr>)
      | (Panic p, w) \<Rightarrow> Some (b\<lparr>ws := w, down_result := Some (Panic p)\<rparr>)
      | (Pending, w) \<Rightarrow> None)"

section \<open>The bridge\<close>

datatype turn = Up nat | Down

fun bridge_turn :: "'c cipher_api \<Rightarrow> (nat \<Rightarrow> bytes option) \<Rightarrow> turn \<Rightarrow> 'c bridge \<Rightarrow> 'c bridge option" where
  "bridge_turn C rnds (Up n) b = up_turn C rnds n b"
| "bridge_turn C rnds Down b = down_turn rnds b"

text \<open>A schedule of turns; a turn that is not enabled changes nothing.\<close>

definition run_bridge :: "'c cipher_api \<Rightarrow> (nat \<Rightarrow> bytes option) \<Rightarrow> turn list \<Rightarrow> 'c bridge \<Rightarrow> 'c bridge" where
  "run_bridge C rnds sched b =
     fold (\<lambda>t b. case bridge_turn C rnds t b of None \<Rightarrow> b | Some b' \<Rightarrow> b') sched b"

definition no_stats :: bridge_stats where
  "no_stats = \<lparr>st_bytes = 0, st_packets = 0, end_reason = []\<rparr>"

text \<open>
  The joined result: a panic of a loop ends the task; else the join waits for both loops, for ever
  if one is blocked, and then the first error counts, of the upstream first.
\<close>

definition bridge_result :: "'c bridge \<Rightarrow> (bridge_stats \<times> bridge_stats, bridge_error) outcome" where
  "bridge_result b =
     (case (up_result b, down_result b) of
        (Some (Panic p), _) \<Rightarrow> Panic p
      | (_, Some (Panic p)) \<Rightarrow> Panic p
      | (Some (Ok u), Some (Ok d)) \<Rightarrow> Ok (u, d)
      | (Some (Err e), Some (Ok d)) \<Rightarrow> Err e
      | (Some (Err e), Some (Err e')) \<Rightarrow> Err e
      | (Some (Ok u), Some (Err e)) \<Rightarrow> Err e
      | _ \<Rightarrow> Pending)"

definition bridge_start ::
    "(nat \<Rightarrow> bytes option) \<Rightarrow> stream \<Rightarrow> stream \<Rightarrow> bytes \<Rightarrow> 'c mtproto_message_splitter option
      \<Rightarrow> ('c bridge, bridge_error) outcome" where
  "bridge_start rnds c w init_data splitter =
     (case ws_send (rnds 0) init_data w of
        (Ok _, w') \<Rightarrow> Ok \<lparr>client = c, ws = w', draws = 1, up_splitter = splitter, up_stats = no_stats,
          up_result = None, down_stats = no_stats, down_result = None, writer_locked = False\<rparr>
      | (Err e, w') \<Rightarrow> Err (WsOther e)
      | (Panic p, w') \<Rightarrow> Panic p
      | (Pending, w') \<Rightarrow> Pending)"

definition bridge_ws_tcp ::
    "'c cipher_api \<Rightarrow> (nat \<Rightarrow> bytes option) \<Rightarrow> turn list \<Rightarrow> stream \<Rightarrow> stream \<Rightarrow> bytes
      \<Rightarrow> 'c mtproto_message_splitter option
      \<Rightarrow> (bridge_stats \<times> bridge_stats, bridge_error) outcome \<times> 'c bridge option" where
  "bridge_ws_tcp C rnds sched c w init_data splitter =
     (case bridge_start rnds c w init_data splitter of
        Ok b \<Rightarrow> (bridge_result (run_bridge C rnds sched b), Some (run_bridge C rnds sched b))
      | Err e \<Rightarrow> (Err e, None)
      | Panic p \<Rightarrow> (Panic p, None)
      | Pending \<Rightarrow> (Pending, None))"

section \<open>Plain TCP\<close>

record tcp_net =
  connect_host :: "string \<Rightarrow> u16 \<Rightarrow> io_error + stream"
  copy_bidirectional :: "stream \<Rightarrow> stream \<Rightarrow> (unit, io_error) outcome \<times> stream \<times> stream"

definition bridge_tcp_tcp_with_prelude ::
    "tcp_net \<Rightarrow> stream \<Rightarrow> string \<Rightarrow> u16 \<Rightarrow> bytes \<Rightarrow> (unit, io_error) outcome \<times> stream \<times> stream option" where
  "bridge_tcp_tcp_with_prelude net c addr port prelude =
     (case connect_host net addr port of
        Inl e \<Rightarrow> (Err e, c, None)
      | Inr remote \<Rightarrow>
          (case (if prelude \<noteq> [] then write_all prelude remote else (Ok (), remote)) of
             (Ok _, r1) \<Rightarrow>
               (case copy_bidirectional net c r1 of
                  (Ok _, c2, r2) \<Rightarrow>
                    (case shutdown c2 of
                       (Ok _, c3) \<Rightarrow> (case shutdown r2 of (res, r3) \<Rightarrow> (res, c3, Some r3))
                     | (res, c3) \<Rightarrow> (res, c3, Some r2))
                | (res, c2, r2) \<Rightarrow> (res, c2, Some r2))
           | (res, r1) \<Rightarrow> (res, c, Some r1)))"

definition bridge_tcp_tcp ::
    "tcp_net \<Rightarrow> stream \<Rightarrow> string \<Rightarrow> u16 \<Rightarrow> (unit, io_error) outcome \<times> stream \<times> stream option" where
  "bridge_tcp_tcp net c addr port = bridge_tcp_tcp_with_prelude net c addr port []"

section \<open>The ends of the loops, and a ping\<close>

lemma up_finish_fields [simp]:
  "client (up_finish b) = client b" "rx (ws (up_finish b)) = rx (ws b)" "rx_end (ws (up_finish b)) = rx_end (ws b)"
  "tx (ws (up_finish b)) = tx (ws b)" "tx_room (ws (up_finish b)) = tx_room (ws b)"
  "up_stats (up_finish b) = up_stats b" "down_stats (up_finish b) = down_stats b"
  "down_result (up_finish b) = down_result b" "\<exists>r. up_result (up_finish b) = Some r"
  using ws_close_state [of "ws b"]
  by (cases "ws_close (ws b)"; auto simp: up_finish_def split: option.split)+

lemma up_finish_ok:
  assumes "\<not> writer_locked b" "shuts_down (ws b)"
  shows "up_finish b = b\<lparr>ws := (ws b)\<lparr>tx_shut := True\<rparr>,
    up_result := Some (Ok ((up_stats b)\<lparr>end_reason := ''client_eof''\<rparr>))\<rparr>"
  using assms by (simp add: up_finish_def ws_close_ok)

lemma up_finish_Ok_iff [simp]: "up_result (up_finish b) = Some (Ok u)
    \<longleftrightarrow> \<not> writer_locked b \<and> shuts_down (ws b) \<and> u = (up_stats b)\<lparr>end_reason := ''client_eof''\<rparr>"
  by (auto simp: up_finish_def ws_close_def wsio_def io_map_err_def shutdown_def shuts_down_def split: shut_end.splits)

lemma down_finish_fields [simp]:
  "client (down_finish why b) = (client b)\<lparr>tx_shut := True\<rparr>" "ws (down_finish why b) = ws b"
  "up_stats (down_finish why b) = up_stats b" "down_stats (down_finish why b) = down_stats b"
  "up_result (down_finish why b) = up_result b" "\<exists>r. down_result (down_finish why b) = Some r"
  "writer_locked (down_finish why b) = writer_locked b"
  using shutdown_state [of "client b"]
  by (cases "shutdown (client b)"; auto simp: down_finish_def split: option.split)+

lemma down_finish_ok:
  assumes "shuts_down (client b)"
  shows "down_finish why b = b\<lparr>client := (client b)\<lparr>tx_shut := True\<rparr>,
    down_result := Some (Ok ((down_stats b)\<lparr>end_reason := why\<rparr>))\<rparr>"
  using assms by (simp add: down_finish_def shutdown_ok)

lemma down_finish_Ok_iff [simp]: "down_result (down_finish why b) = Some (Ok d)
    \<longleftrightarrow> shuts_down (client b) \<and> d = (down_stats b)\<lparr>end_reason := why\<rparr>"
  by (auto simp: down_finish_def shutdown_def shuts_down_def split: shut_end.splits)

lemma down_finish_not_None: "down_result (down_finish why b) = None \<longleftrightarrow> False"
  using down_finish_fields(6) [of why b] by auto

lemma down_turn_ping:
  assumes "down_turn rnds b = Some b'" "recv_frame (ws b) = (Ok (Some (InPing p)), w)"
  obtains (blocked) "writer_locked b" "b' = b\<lparr>ws := w, down_result := Some Pending\<rparr>"
    | (pong) r w' where "\<not> writer_locked b" "send_control_frame (rnds (draws b)) 0xA p w = (r, w')"
      "b' = b\<lparr>ws := w', draws := Suc (draws b), writer_locked := is_pending r, down_result := loop_end WsOther r\<rparr>"
  using assms by (auto simp: down_turn_def split: if_splits prod.splits)

lemma down_turn_up_side:
  assumes "down_turn rnds b = Some b'"
  shows "rx (client b') = rx (client b) \<and> up_stats b' = up_stats b \<and> up_result b' = up_result b"
  using assms
  by (auto simp: down_turn_def write_all_def
      split: if_splits outcome.splits option.splits ws_incoming.splits prod.splits)

lemma down_turn_ws:
  assumes "down_turn rnds b = Some b'" "recv_frame (ws b) = (r, w)" "\<nexists>p. r = Ok (Some (InPing p))"
  shows "ws b' = w \<and> writer_locked b' = writer_locked b"
  using assms
  by (auto simp: down_turn_def split: if_splits outcome.splits option.splits ws_incoming.splits prod.splits)

section \<open>What reading does to a stream\<close>

text \<open>A computation that only takes bytes off the front of what arrives, whatever its outcome.\<close>

definition rx_only :: "(stream, 'a, 'e) io \<Rightarrow> bool" where
  "rx_only m \<longleftrightarrow> (\<forall>s. consumes s (snd (m s)))"

lemma rx_only_simple [simp]: "rx_only (io_ok a)" "rx_only (io_err e)" "rx_only (io_panic p)"
  by (simp_all add: rx_only_def)

lemma rx_only_read_exact [simp]: "rx_only (read_exact n)"
  by (simp add: rx_only_def read_exact_def consumes_def suffix_drop)

lemma rx_only_wsio [simp]: "rx_only m \<Longrightarrow> rx_only (wsio m)"
  unfolding rx_only_def wsio_def io_map_err_def
  by (auto split: prod.split outcome.split) (metis snd_conv)+

lemma rx_only_bind: "rx_only m \<Longrightarrow> (\<And>a. rx_only (f a)) \<Longrightarrow> rx_only (io_bind m f)"
  unfolding rx_only_def io_bind_def
  by (auto split: prod.split outcome.split) (metis consumes_trans snd_conv)+

lemma rx_only_read_frame_length: "rx_only (read_frame_length b)"
  by (auto simp: read_frame_length_def Let_def intro!: rx_only_bind)

lemma rx_only_read_frame_body: "rx_only (read_frame_body b0 b1)"
  by (auto simp: read_frame_body_def Let_def alloc_zeroed_def rx_only_read_frame_length intro!: rx_only_bind)

lemma rx_only_read_frame: "rx_only read_frame"
  unfolding rx_only_def
proof
  fix s
  obtain r s1 where r: "read_exact 2 s = (r, s1)" by (cases "read_exact 2 s")
  have c: "consumes s s1" using rx_only_read_exact [of 2] r by (metis rx_only_def snd_conv)
  moreover have "consumes s1 (snd (io_bind (read_frame_body x y) (\<lambda>f. io_ok (Some f)) s1))" for x y
    using rx_only_bind [OF rx_only_read_frame_body, of "\<lambda>f. io_ok (Some f)" x y] by (simp add: rx_only_def)
  ultimately show "consumes s (snd (read_frame s))"
    by (cases r) (auto simp: read_frame_def r intro: consumes_trans)
qed

lemma rx_only_recv_frame: "rx_only recv_frame"
  unfolding rx_only_def
proof
  fix s show "consumes s (snd (recv_frame s))"
  proof (induction s rule: recv_frame.induct)
    case (1 s)
    obtain r s1 where r: "read_frame s = (r, s1)" by (cases "read_frame s")
    have c: "consumes s s1" using rx_only_read_frame r by (metis rx_only_def snd_conv)
    show ?case
    proof (cases "\<exists>p. r = Ok (Some (Pong p))")
      case True
      then have "recv_frame s = recv_frame s1" using r by (auto simp: recv_frame.simps [of s])
      moreover have "consumes s1 (snd (recv_frame s1))" using 1 r True by fastforce
      ultimately show ?thesis using c by (auto intro: consumes_trans)
    next
      case False
      then have "snd (recv_frame s) = s1"
        using r by (auto simp: recv_frame.simps [of s] split: outcome.splits option.splits ws_frame.splits)
      with c show ?thesis by simp
    qed
  qed
qed

lemma consumesD:
  "consumes s s' \<Longrightarrow> length (rx s') \<le> length (rx s)" "consumes s s' \<Longrightarrow> tx s' = tx s"
  "consumes s s' \<Longrightarrow> rx_end s' = rx_end s" "consumes s s' \<Longrightarrow> tx_room s' = tx_room s"
  "consumes s s' \<Longrightarrow> tx_shut s' = tx_shut s" "consumes s s' \<Longrightarrow> tx_end s' = tx_end s"
  "consumes s s' \<Longrightarrow> on_shutdown s' = on_shutdown s"
proof -
  assume "consumes s s'"
  then have e: "s' = s\<lparr>rx := rx s'\<rparr>" and "suffix (rx s') (rx s)" by (simp_all add: consumes_def)
  then show "length (rx s') \<le> length (rx s)" by (simp add: suffix_length_le)
  show "tx s' = tx s" "rx_end s' = rx_end s" "tx_room s' = tx_room s" "tx_shut s' = tx_shut s"
    "tx_end s' = tx_end s" "on_shutdown s' = on_shutdown s"
    by (subst e, simp)+
qed

lemma recv_frame_keeps:
  assumes "recv_frame s = (r, s')"
  shows "length (rx s') \<le> length (rx s)" "tx s' = tx s" "rx_end s' = rx_end s" "tx_room s' = tx_room s"
    "tx_shut s' = tx_shut s" "tx_end s' = tx_end s" "on_shutdown s' = on_shutdown s"
  using rx_only_recv_frame assms consumesD [of s s'] by (metis rx_only_def snd_conv)+

section \<open>Payloads\<close>

fun payload_of :: "ws_frame \<Rightarrow> bytes" where
  "payload_of (Binary p) = p"
| "payload_of (Ping p) = p"
| "payload_of (Pong p) = p"
| "payload_of (Close i) = []"
| "payload_of (Other p) = p"

lemma read_frame_payload: "read_frame s = (Ok (Some f), s') \<Longrightarrow> length (payload_of f) \<le> isize_max"
proof (erule read_frame_SomeD)
  fix b0 b1 s1 assume "read_frame_body b0 b1 s1 = (Ok f, s')"
  then obtain len p s2 s3 where "alloc_zeroed (unat (len :: u64)) s2 = (Ok (), s2)" "length p = unat len"
    "f = frame_of_opcode (b0 AND 15) p"
    unfolding read_frame_body_def Let_def
    by (auto elim!: io_bind_OkE dest!: wsio_read_OkD alloc_zeroed_OkD split: if_splits)
      (metis alloc_zeroed_def io_ok_run length_xor_with)+
  then have "length p \<le> isize_max" "f = frame_of_opcode (b0 AND 15) p" by (auto dest: alloc_zeroed_OkD)
  then show ?thesis by (simp add: frame_of_opcode_def)
qed

lemma recv_frame_ping: "recv_frame s = (Ok (Some (InPing p)), s') \<Longrightarrow> length p \<le> isize_max"
proof (induction s rule: recv_frame.induct)
  case (1 s)
  obtain r s1 where r: "read_frame s = (r, s1)" by (cases "read_frame s")
  show ?case
  proof (cases "\<exists>q. r = Ok (Some (Pong q))")
    case True
    with 1 r show ?thesis by (auto simp: recv_frame.simps [of s])
  next
    case False
    then have "r = Ok (Some (Ping p))"
      using "1.prems" r by (auto simp: recv_frame.simps [of s] split: outcome.splits option.splits ws_frame.splits)
    with r read_frame_payload [of s "Ping p" s1] show ?thesis by simp
  qed
qed

section \<open>Runs\<close>

lemma run_bridge_inv:
  assumes "\<And>t b b'. P b \<Longrightarrow> bridge_turn C rnds t b = Some b' \<Longrightarrow> P b'" "P b"
  shows "P (run_bridge C rnds sched b)"
  using assms(2) unfolding run_bridge_def
  by (induction sched arbitrary: b) (auto split: option.split intro: assms(1))

fun data_of :: "ws_frame \<Rightarrow> bytes" where
  "data_of (Binary p) = p"
| "data_of _ = []"

definition part_frames :: "(nat \<Rightarrow> bytes option) \<Rightarrow> nat \<Rightarrow> bytes list \<Rightarrow> client_frame list" where
  "part_frames rnds k parts = map (\<lambda>(i, p). (rnds i, 0x2, p)) (enumerate k parts)"

lemma part_frames_Cons [simp]:
  "part_frames rnds k [] = []"
  "part_frames rnds k (p # ps) = (rnds k, 0x2, p) # part_frames rnds (Suc k) ps"
  by (simp_all add: part_frames_def)

lemma send_parts_writable:
  "writable s \<Longrightarrow> send_parts rnds k parts s
     = (Ok (), s\<lparr>tx := tx s @ concat (map client_bytes (part_frames rnds k parts))\<rparr>)"
proof (induction parts arbitrary: k s)
  case (Cons p ps)
  have "ws_send (rnds k) p s = (Ok (), s\<lparr>tx := tx s @ build_frame (rnds k) p\<rparr>)"
    using Cons.prems by (simp add: ws_send_def send_raw_writable)
  with Cons.IH [of "s\<lparr>tx := tx s @ build_frame (rnds k) p\<rparr>" "Suc k"] Cons.prems show ?case
    by (simp add: build_frame_def)
qed simp

lemma part_frames_data: "concat (map (data_of \<circ> client_view) (part_frames rnds k parts)) = concat parts"
  by (induction parts arbitrary: k) (simp_all add: frame_of_opcode_def)

definition wf_draws :: "(nat \<Rightarrow> bytes option) \<Rightarrow> bool" where
  "wf_draws rnds \<longleftrightarrow> (\<forall>i. wf_mask (rnds i))"

lemma part_frames_wf:
  "wf_draws rnds \<Longrightarrow> \<forall>p \<in> set parts. length p \<le> isize_max \<Longrightarrow>
   \<forall>f \<in> set (part_frames rnds k parts). wf_client_frame f"
  by (induction parts arbitrary: k) (auto simp: wf_draws_def)

lemma length_part_le: "p \<in> set ps \<Longrightarrow> length p \<le> length (concat ps)"
  by (induction ps) auto

text \<open>
  The invariant of the upstream: what has been written to the WebSocket is a sequence of
  well-formed frames whose data are the init packet and the bytes taken from the client.
\<close>

definition up_written :: "bytes \<Rightarrow> bytes \<Rightarrow> bytes \<Rightarrow> 'c bridge \<Rightarrow> client_frame list \<Rightarrow> bytes \<Rightarrow> bool" where
  "up_written w0 init_data c0 b fs sent \<longleftrightarrow>
     tx (ws b) = w0 @ concat (map client_bytes fs) \<and> (\<forall>f \<in> set fs. wf_client_frame f)
     \<and> c0 = sent @ rx (client b) \<and> concat (map (data_of \<circ> client_view) fs) = init_data @ sent
     \<and> st_bytes (up_stats b) = word_of_nat (length sent)"

definition up_inv :: "bytes \<Rightarrow> bytes \<Rightarrow> bytes \<Rightarrow> 'c bridge \<Rightarrow> bool" where
  "up_inv w0 init_data c0 b \<longleftrightarrow> tx_room (ws b) = None \<and> (writer_locked b \<longrightarrow> up_result b \<noteq> None)
     \<and> (up_result b = None \<longrightarrow> \<not> tx_shut (ws b))
     \<and> (up_result b \<noteq> None \<longrightarrow> rx (client b) = [])
     \<and> (\<exists>fs sent. up_written w0 init_data c0 b fs sent)"

context stream_cipher
begin

lemma split_parts_concat: "concat (fst (split_parts C osp chunk)) = chunk"
  by (cases osp) (simp_all add: split_parts_def split_chunk_concat)

lemma up_chunk_inv:
  assumes inv: "up_inv w0 init_data c0 b" and run: "up_result b = None" and rnds: "wf_draws rnds"
    and n: "n \<le> READ_BUF"
  shows "up_inv w0 init_data c0 (up_chunk C rnds (take n (rx (client b))) b)"
proof -
  let ?chunk = "take n (rx (client b))"
  obtain parts sp where p: "split_parts C (up_splitter b) ?chunk = (parts, sp)"
    by (cases "split_parts C (up_splitter b) ?chunk")
  have cp: "concat parts = ?chunk" using split_parts_concat [of "up_splitter b" ?chunk] p by simp
  from inv obtain fs sent where w: "up_written w0 init_data c0 b fs sent" and o: "tx_room (ws b) = None" "\<not> tx_shut (ws b)"
    and l: "\<not> writer_locked b"
    using run by (auto simp: up_inv_def)
  let ?new = "part_frames rnds (draws b) parts"
  have s: "send_parts rnds (draws b) parts (ws b) = (Ok (), (ws b)\<lparr>tx := tx (ws b) @ concat (map client_bytes ?new)\<rparr>)"
    using o by (intro send_parts_writable) (simp add: writable_def)
  have len: "\<forall>p \<in> set parts. length p \<le> isize_max"
  proof
    fix p assume "p \<in> set parts"
    then have "length p \<le> length ?chunk" using length_part_le [of p parts] cp by simp
    with n show "length p \<le> isize_max" by (simp add: READ_BUF_def isize_max_def)
  qed
  have "up_written w0 init_data c0 (up_chunk C rnds ?chunk b) (fs @ ?new) (sent @ ?chunk)"
    using w part_frames_wf [OF rnds len, of "draws b"] part_frames_data [of rnds "draws b" parts] cp
    by (auto simp: up_written_def up_chunk_def up_read_def l p s count_def min_def)
  then show ?thesis using o by (auto simp: up_inv_def up_chunk_def up_read_def l p s)
qed

lemma up_turn_inv:
  assumes "up_inv w0 init_data c0 b" "wf_draws rnds" "up_turn C rnds n b = Some b'"
  shows "up_inv w0 init_data c0 b'"
proof -
  have run: "up_result b = None" using assms(3) by (auto simp: up_turn_def split: if_splits)
  consider (chunk) "b' = up_chunk C rnds (take (max 1 (min n READ_BUF)) (rx (client b))) b"
    | (finish) "b' = up_finish b" "rx (client b) = []"
    | (err) e where "b' = b\<lparr>up_result := Some (Err (ClientIo e))\<rparr>" "rx (client b) = []"
    using assms(3) run by (auto simp: up_turn_def split: if_splits rx_end.splits)
  then show ?thesis
  proof cases
    case chunk
    then show ?thesis using up_chunk_inv [OF assms(1) run assms(2)] by (simp add: READ_BUF_def)
  next
    case finish
    obtain r w where w: "ws_close (ws b) = (r, w)" by (cases "ws_close (ws b)")
    then have "w = (ws b)\<lparr>tx_shut := True\<rparr>" using ws_close_state [of "ws b"] by simp
    with w finish show ?thesis using assms(1)
      by (auto simp: up_inv_def up_written_def up_finish_def split: option.split)
  next
    case err
    then show ?thesis using assms(1) by (auto simp: up_inv_def up_written_def)
  qed
qed

end

lemma send_control_pong:
  assumes "tx_room w = None" "wf_mask rnd" "length p \<le> isize_max"
  shows "\<exists>fs. tx (snd (send_control_frame rnd 0xA p w)) = tx w @ concat (map client_bytes fs)
    \<and> (\<forall>f \<in> set fs. wf_client_frame f) \<and> concat (map (data_of \<circ> client_view) fs) = []
    \<and> tx_room (snd (send_control_frame rnd 0xA p w)) = None
    \<and> tx_shut (snd (send_control_frame rnd 0xA p w)) = tx_shut w
    \<and> \<not> is_pending (fst (send_control_frame rnd 0xA p w))"
proof (cases "tx_shut w")
  case True
  then have "send_control_frame rnd 0xA p w = (Err (WsIo BrokenPipe), w)"
    by (rule send_control_shut)
  with assms True show ?thesis by (intro exI [of _ "[]"]) simp
next
  case False
  then have "send_control_frame rnd 0xA p w = (Ok (), w\<lparr>tx := tx w @ build_frame_with_opcode rnd 0xA p\<rparr>)"
    using assms(1) by (simp add: send_control_frame_def send_raw_writable writable_def)
  with assms False show ?thesis
    by (intro exI [of _ "[(rnd, 0xA, p)]"]) (simp add: frame_of_opcode_def)
qed

lemma down_turn_inv_up:
  assumes "up_inv w0 init_data c0 b" "wf_draws rnds" "down_turn rnds b = Some b'"
  shows "up_inv w0 init_data c0 b'"
proof -
  obtain r w where r: "recv_frame (ws b) = (r, w)" by (cases "recv_frame (ws b)")
  note k = recv_frame_keeps [OF r] and same = down_turn_up_side [OF assms(3)]
  show ?thesis
  proof (cases "\<exists>p. r = Ok (Some (InPing p))")
    case True
    then obtain p where p: "r = Ok (Some (InPing p))" by blast
    from assms(3) r [unfolded p] show ?thesis
    proof (cases rule: down_turn_ping)
      case blocked
      with assms(1) k show ?thesis by (auto simp: up_inv_def up_written_def)
    next
      case (pong r' w')
      have "wf_mask (rnds (draws b))" using assms(2) by (simp add: wf_draws_def)
      moreover have "length p \<le> isize_max" using recv_frame_ping r p by simp
      moreover have "tx_room w = None" using assms(1) k by (simp add: up_inv_def)
      ultimately obtain fs where fs: "tx (ws b') = tx (ws b) @ concat (map client_bytes fs)"
        "\<forall>f \<in> set fs. wf_client_frame f" "concat (map (data_of \<circ> client_view) fs) = []"
        "tx_room (ws b') = None" "tx_shut (ws b') = tx_shut (ws b)" "\<not> writer_locked b'"
        using send_control_pong [of w "rnds (draws b)" p] k pong by auto
      from assms(1) obtain gs sent where "up_written w0 init_data c0 b gs sent" by (auto simp: up_inv_def)
      with fs same have "up_written w0 init_data c0 b' (gs @ fs) sent" by (auto simp: up_written_def)
      with fs same assms(1) show ?thesis by (auto simp: up_inv_def)
    qed
  next
    case False
    then have "ws b' = w" "writer_locked b' = writer_locked b" using down_turn_ws [OF assms(3) r] by auto
    with assms(1) same k show ?thesis by (simp add: up_inv_def up_written_def)
  qed
qed

lemma bridge_start_writable:
  "writable w \<Longrightarrow> bridge_start rnds c w init_data sp =
     Ok \<lparr>client = c, ws = w\<lparr>tx := tx w @ build_frame (rnds 0) init_data\<rparr>, draws = 1, up_splitter = sp,
       up_stats = no_stats, up_result = None, down_stats = no_stats, down_result = None, writer_locked = False\<rparr>"
  by (simp add: bridge_start_def ws_send_def send_raw_writable)

lemma up_inv_start:
  assumes "writable w" "wf_draws rnds" "length init_data \<le> isize_max" "bridge_start rnds c w init_data sp = Ok b"
  shows "up_inv (tx w) init_data (rx c) b"
proof -
  have "b = \<lparr>client = c, ws = w\<lparr>tx := tx w @ build_frame (rnds 0) init_data\<rparr>, draws = 1, up_splitter = sp,
       up_stats = no_stats, up_result = None, down_stats = no_stats, down_result = None, writer_locked = False\<rparr>"
    using assms(4) bridge_start_writable [OF assms(1), of rnds c init_data sp] by simp
  then have "up_written (tx w) init_data (rx c) b [(rnds 0, 0x2, init_data)] []"
    using assms(2,3)
    by (simp add: up_written_def build_frame_def frame_of_opcode_def no_stats_def wf_draws_def)
  with \<open>b = _\<close> assms(1) show ?thesis unfolding up_inv_def writable_def by auto
qed

section \<open>The downstream\<close>

fun is_pong :: "ws_frame \<Rightarrow> bool" where
  "is_pong (Pong p) = True"
| "is_pong _ = False"

definition recv_at_end :: "stream \<Rightarrow> (ws_incoming option, ws_error) outcome" where
  "recv_at_end s = (case rx_end s of
      Eof \<Rightarrow> Ok None
    | RxError e \<Rightarrow> if e = UnexpectedEof then Ok None else Err (WsIo e)
    | Silent \<Rightarrow> Pending)"

lemma recv_frame_exhausted: "rx s = [] \<Longrightarrow> recv_frame s = (recv_at_end s, s\<lparr>rx := []\<rparr>)"
  by (auto simp: recv_frame.simps [of s] read_frame_def read_exact_def at_rx_end_def recv_at_end_def split: rx_end.split)

lemma incoming_of_not_pong: "\<not> is_pong f \<Longrightarrow> \<exists>i. incoming_of f = Some i"
  by (cases f) auto

text \<open>Receiving from a server that sends whole frames.\<close>

lemma recv_frame_server:
  assumes "\<forall>g \<in> set gs. wf_server_frame g" "rx s = concat (map server_bytes gs)"
  shows "recv_frame s = (case dropWhile (is_pong \<circ> server_view) gs of
      [] \<Rightarrow> (recv_at_end s, s\<lparr>rx := []\<rparr>)
    | g # gs' \<Rightarrow> (Ok (incoming_of (server_view g)), s\<lparr>rx := concat (map server_bytes gs')\<rparr>))"
  using assms
proof (induction gs arbitrary: s)
  case Nil
  then show ?case by (simp add: recv_frame_exhausted)
next
  case (Cons g gs)
  let ?s = "s\<lparr>rx := concat (map server_bytes gs)\<rparr>"
  have r: "read_frame s = (Ok (Some (server_view g)), ?s)"
    using Cons.prems by (intro read_server_frame) simp_all
  show ?case
  proof (cases "is_pong (server_view g)")
    case True
    then obtain p where "server_view g = Pong p" by (cases "server_view g") auto
    with r have "recv_frame s = recv_frame ?s" by (simp add: recv_frame_step)
    with Cons.IH [of ?s] Cons.prems True show ?thesis by (simp add: recv_at_end_def cong: list.case_cong)
  next
    case False
    then obtain i where "incoming_of (server_view g) = Some i" using incoming_of_not_pong by blast
    with r False show ?thesis by (simp add: recv_frame_step)
  qed
qed

text \<open>
  The invariant of the downstream: some of the server's frames have been taken, and the
  client has been sent exactly their data; a frame that ends the download has been taken only
  when it has ended, and a regular end means that nothing before such a frame is missing.
\<close>

fun closing :: "ws_frame \<Rightarrow> bool" where
  "closing (Close i) = True"
| "closing (Other p) = True"
| "closing _ = False"

definition frames_data :: "(byte \<times> bytes) list \<Rightarrow> bytes" where
  "frames_data gs = concat (map (data_of \<circ> server_view) gs)"

text \<open>What a complete download of these frames delivers.\<close>

definition down_data :: "(byte \<times> bytes) list \<Rightarrow> bytes" where
  "down_data gs = frames_data (takeWhile (\<lambda>g. \<not> closing (server_view g)) gs)"

definition down_inv :: "(byte \<times> bytes) list \<Rightarrow> bytes \<Rightarrow> rx_end \<Rightarrow> 'c bridge \<Rightarrow> bool" where
  "down_inv gs c0 e b \<longleftrightarrow> tx_room (client b) = None \<and> (down_result b = None \<longrightarrow> \<not> tx_shut (client b))
     \<and> rx_end (ws b) = e
     \<and> (\<exists>done todo. gs = done @ todo \<and> rx (ws b) = concat (map server_bytes todo)
          \<and> tx (client b) = c0 @ frames_data done
          \<and> st_bytes (down_stats b) = word_of_nat (length (frames_data done))
          \<and> (down_result b = None \<longrightarrow> (\<forall>g \<in> set done. \<not> closing (server_view g)))
          \<and> (\<forall>st. down_result b = Some (Ok st) \<longrightarrow> frames_data done = down_data gs))"

lemma down_invI:
  assumes "gs = dn @ todo" "rx (ws b) = concat (map server_bytes todo)"
    and "tx (client b) = c0 @ frames_data dn"
    and "st_bytes (down_stats b) = word_of_nat (length (frames_data dn))"
    and "tx_room (client b) = None" "down_result b = None \<Longrightarrow> \<not> tx_shut (client b)" "rx_end (ws b) = e"
    and "down_result b = None \<Longrightarrow> \<forall>g \<in> set dn. \<not> closing (server_view g)"
    and "\<And>st. down_result b = Some (Ok st) \<Longrightarrow> frames_data dn = down_data gs"
  shows "down_inv gs c0 e b"
  unfolding down_inv_def
  by (intro conjI exI [of _ dn] exI [of _ todo]) (use assms in simp_all)

lemma frames_data_simps [simp]:
  "frames_data [] = []" "frames_data (gs @ hs) = frames_data gs @ frames_data hs"
  "frames_data (g # gs) = data_of (server_view g) @ frames_data gs"
  by (simp_all add: frames_data_def)

lemma down_data_closing:
  assumes "\<forall>g \<in> set gs. \<not> closing (server_view g)"
  shows "down_data gs = frames_data gs" "closing (server_view h) \<Longrightarrow> down_data (gs @ h # hs) = frames_data gs"
proof -
  have "takeWhile (\<lambda>g. \<not> closing (server_view g)) gs = gs" using assms by (simp add: takeWhile_eq_all_conv)
  then show "down_data gs = frames_data gs" by (simp only: down_data_def)
  show "closing (server_view h) \<Longrightarrow> down_data (gs @ h # hs) = frames_data gs"
    using assms by (simp add: down_data_def)
qed

lemma closing_data: "closing f \<Longrightarrow> data_of f = []"
  by (cases f) auto

lemma loop_end_not_Ok: "loop_end f r \<noteq> Some (Ok st)"
  by (cases r) auto

lemma dropWhile_pongs_data:
  "frames_data (takeWhile (is_pong \<circ> server_view) gs) = []"
proof -
  have "\<forall>g \<in> set (takeWhile (is_pong \<circ> server_view) gs). (data_of \<circ> server_view) g = []"
  proof
    fix g assume "g \<in> set (takeWhile (is_pong \<circ> server_view) gs)"
    then have "is_pong (server_view g)" by (auto dest: set_takeWhileD)
    then show "(data_of \<circ> server_view) g = []" by (cases "server_view g") auto
  qed
  then show ?thesis by (simp add: frames_data_def)
qed

lemma pongs_not_closing: "\<forall>g \<in> set (takeWhile (is_pong \<circ> server_view) gs). \<not> closing (server_view g)"
proof
  fix g assume "g \<in> set (takeWhile (is_pong \<circ> server_view) gs)"
  then have "is_pong (server_view g)" by (auto dest: set_takeWhileD)
  then show "\<not> closing (server_view g)" by (cases "server_view g") auto
qed

lemma send_parts_rx:
  "rx (snd (send_parts rnds k ps s)) = rx s \<and> rx_end (snd (send_parts rnds k ps s)) = rx_end s"
proof (induction ps arbitrary: k s)
  case (Cons p ps)
  obtain r s1 where r: "ws_send (rnds k) p s = (r, s1)" by (cases "ws_send (rnds k) p s")
  have "rx s1 = rx s \<and> rx_end s1 = rx_end s"
    using send_raw_rx [of "build_frame (rnds k) p" s] r by (simp add: ws_send_def)
  with Cons.IH [of "Suc k" s1] r show ?case by (cases r) (auto simp: io_bind_def)
qed simp

lemma up_turn_down_side:
  assumes "up_turn C rnds n b = Some b'"
  shows "rx (ws b') = rx (ws b) \<and> rx_end (ws b') = rx_end (ws b) \<and> tx (client b') = tx (client b)
    \<and> tx_room (client b') = tx_room (client b) \<and> tx_shut (client b') = tx_shut (client b)
    \<and> down_stats b' = down_stats b \<and> down_result b' = down_result b"
proof -
  consider (chunk) "b' = up_chunk C rnds (take (max 1 (min n READ_BUF)) (rx (client b))) b"
    | (finish) "b' = up_finish b" "rx (client b) = []"
    | (err) e where "b' = b\<lparr>up_result := Some (Err (ClientIo e))\<rparr>" "rx (client b) = []"
    using assms by (auto simp: up_turn_def split: if_splits rx_end.splits)
  then show ?thesis
    by cases (simp_all add: up_chunk_def up_read_def case_prod_beta send_parts_rx)
qed

lemma down_inv_up_turn: "down_inv gs c0 e b \<Longrightarrow> up_turn C rnds n b = Some b' \<Longrightarrow> down_inv gs c0 e b'"
  using up_turn_down_side [of C rnds n b b'] by (simp add: down_inv_def)

lemma down_turn_frame:
  assumes "down_turn rnds b = Some b'" "down_result b = None"
    and "recv_frame (ws b) = (Ok (incoming_of f), w)" "\<not> is_pong f"
    and "tx_room (client b) = None" "\<not> tx_shut (client b)"
  shows "rx (ws b') = rx w \<and> rx_end (ws b') = rx_end w \<and> tx_room (client b') = None
    \<and> tx (client b') = tx (client b) @ data_of f
    \<and> st_bytes (down_stats b') = st_bytes (down_stats b) + word_of_nat (length (data_of f))
    \<and> (down_result b' = None \<longrightarrow> \<not> tx_shut (client b') \<and> \<not> closing f)
    \<and> (\<forall>st. down_result b' = Some (Ok st) \<longrightarrow> closing f)"
proof (cases f)
  case (Binary p)
  have "write_all p (client b) = (Ok (), (client b)\<lparr>tx := tx (client b) @ p\<rparr>)"
    using assms(5,6) by (simp add: writable_def)
  with Binary assms show ?thesis by (auto simp: down_turn_def count_def)
next
  case (Ping p)
  have "rx (snd (send_control_frame (rnds (draws b)) 0xA p w)) = rx w
    \<and> rx_end (snd (send_control_frame (rnds (draws b)) 0xA p w)) = rx_end w"
    unfolding send_control_frame_def by (rule send_raw_rx)
  with Ping assms show ?thesis
    by (auto simp: down_turn_def case_prod_beta loop_end_not_Ok split: if_splits)
qed (use assms in \<open>auto simp: down_turn_def\<close>)

lemma down_inv_down_turn:
  assumes "\<forall>g \<in> set gs. wf_server_frame g" "down_inv gs c0 e b" "down_turn rnds b = Some b'"
  shows "down_inv gs c0 e b'"
proof -
  have run: "down_result b = None" using assms(3) by (auto simp: down_turn_def split: if_splits)
  with assms(2) obtain dn todo where gs: "gs = dn @ todo" and rx: "rx (ws b) = concat (map server_bytes todo)"
    and tx: "tx (client b) = c0 @ frames_data dn"
    and st: "st_bytes (down_stats b) = word_of_nat (length (frames_data dn))"
    and o: "tx_room (client b) = None" "rx_end (ws b) = e" "\<not> tx_shut (client b)"
    and nc: "\<forall>g \<in> set dn. \<not> closing (server_view g)"
    by (auto simp: down_inv_def)
  let ?p = "takeWhile (is_pong \<circ> server_view) todo"
  have ncp: "\<forall>g \<in> set (dn @ ?p). \<not> closing (server_view g)" using nc pongs_not_closing by auto
  have recv: "recv_frame (ws b) = (case dropWhile (is_pong \<circ> server_view) todo of
      [] \<Rightarrow> (recv_at_end (ws b), (ws b)\<lparr>rx := []\<rparr>)
    | g # gs' \<Rightarrow> (Ok (incoming_of (server_view g)), (ws b)\<lparr>rx := concat (map server_bytes gs')\<rparr>))"
    using recv_frame_server [of todo "ws b"] assms(1) gs rx by simp
  show ?thesis
  proof (cases "dropWhile (is_pong \<circ> server_view) todo")
    case Nil
    then have all: "?p = todo" by (metis append_Nil2 takeWhile_dropWhile_id)
    have "frames_data todo = []" using dropWhile_pongs_data [of todo] unfolding all .
    then have d: "frames_data gs = frames_data dn" "frames_data todo = []" using gs by simp_all
    have dd: "down_data gs = frames_data gs" using down_data_closing(1) [OF ncp] unfolding all gs .
    have "rx (ws b') = []" "rx_end (ws b') = e" "tx (client b') = tx (client b)" "tx_room (client b') = None"
      "st_bytes (down_stats b') = st_bytes (down_stats b)" "down_result b' \<noteq> None"
      using assms(3) run recv Nil o
      by (auto simp: down_turn_def recv_at_end_def split: rx_end.splits if_splits)
    with tx st d(1) dd show ?thesis
      by (intro down_invI [of gs "gs" "[]"]) simp_all
  next
    case (Cons g rest)
    then have np: "\<not> is_pong (server_view g)" by (auto simp: dropWhile_eq_Cons_conv)
    from Cons have split: "todo = ?p @ g # rest" by (metis takeWhile_dropWhile_id)
    have d: "frames_data (dn @ ?p @ [g]) = frames_data dn @ data_of (server_view g)"
      by (simp add: dropWhile_pongs_data)
    have "rx (ws b') = concat (map server_bytes rest) \<and> rx_end (ws b') = e \<and> tx_room (client b') = None
      \<and> tx (client b') = tx (client b) @ data_of (server_view g)
      \<and> st_bytes (down_stats b') = st_bytes (down_stats b) + word_of_nat (length (data_of (server_view g)))
      \<and> (down_result b' = None \<longrightarrow> \<not> tx_shut (client b') \<and> \<not> closing (server_view g))
      \<and> (\<forall>st. down_result b' = Some (Ok st) \<longrightarrow> closing (server_view g))"
      using down_turn_frame [OF assms(3) run, of "server_view g" "(ws b)\<lparr>rx := concat (map server_bytes rest)\<rparr>"]
        recv Cons o np by auto
    moreover have "frames_data (dn @ ?p @ [g]) = down_data gs" if "closing (server_view g)"
      using down_data_closing(2) [OF ncp that, of rest] closing_data [OF that] gs split d
      by (simp add: dropWhile_pongs_data)
    ultimately show ?thesis
      using gs split tx st ncp
      by (intro down_invI [of gs "dn @ ?p @ [g]" rest]) (simp_all only: d, auto)
  qed
qed

section \<open>Termination\<close>

definition bridge_work :: "'c bridge \<Rightarrow> nat" where
  "bridge_work b = length (rx (client b)) + length (rx (ws b))
     + (if up_result b = None then 1 else 0) + (if down_result b = None then 1 else 0)"

definition bridge_step :: "'c cipher_api \<Rightarrow> (nat \<Rightarrow> bytes option) \<Rightarrow> 'c bridge \<Rightarrow> 'c bridge \<Rightarrow> bool" where
  "bridge_step C rnds b b' \<longleftrightarrow> (\<exists>t. bridge_turn C rnds t b = Some b')"

lemma up_turn_work:
  assumes "up_turn C rnds n b = Some b'"
  shows "bridge_work b' < bridge_work b"
proof -
  have run: "up_result b = None" using assms by (auto simp: up_turn_def split: if_splits)
  have side: "rx (ws b') = rx (ws b)" "down_result b' = down_result b" using up_turn_down_side [OF assms] by auto
  consider (chunk) "b' = up_chunk C rnds (take (max 1 (min n READ_BUF)) (rx (client b))) b" "rx (client b) \<noteq> []"
    | (finish) "b' = up_finish b" | (err) e where "b' = b\<lparr>up_result := Some (Err (ClientIo e))\<rparr>"
    using assms by (auto simp: up_turn_def split: if_splits rx_end.splits)
  then show ?thesis
  proof cases
    case chunk
    have "0 < length (take (max 1 (min n READ_BUF)) (rx (client b)))" using chunk(2) by simp
    then have "length (rx (client b')) < length (rx (client b))"
      by (simp add: chunk(1) up_chunk_def up_read_def case_prod_beta)
    with side run show ?thesis by (simp add: bridge_work_def)
  qed (use side run in \<open>auto simp: bridge_work_def\<close>)
qed

lemma down_turn_work:
  assumes "down_turn rnds b = Some b'"
  shows "bridge_work b' < bridge_work b"
proof -
  have run: "down_result b = None" using assms by (auto simp: down_turn_def split: if_splits)
  obtain r w where r: "recv_frame (ws b) = (r, w)" by (cases "recv_frame (ws b)")
  note c = down_turn_up_side [OF assms]
  have w: "rx (ws b') = rx w"
  proof (cases "\<exists>p. r = Ok (Some (InPing p))")
    case True
    then obtain p where p: "r = Ok (Some (InPing p))" by blast
    from assms r [unfolded p] show ?thesis
    proof (cases rule: down_turn_ping)
      case (pong r' w')
      then show ?thesis using send_raw_rx [of _ w] by (simp add: send_control_frame_def) (metis snd_conv)
    qed simp
  next
    case False
    then show ?thesis using down_turn_ws [OF assms r] by auto
  qed
  have "length (rx w) < length (rx (ws b)) \<or> length (rx w) \<le> length (rx (ws b)) \<and> down_result b' \<noteq> None"
  proof (cases "\<exists>i. r = Ok (Some i)")
    case True
    then show ?thesis using r recv_frame_consumes by blast
  next
    case False
    then have "down_result b' \<noteq> None"
      using assms r by (auto simp: down_turn_def split: if_splits outcome.splits option.splits)
    with recv_frame_keeps(1) [OF r] show ?thesis by simp
  qed
  with c w run show ?thesis by (auto simp: bridge_work_def)
qed

lemma bridge_step_work: "bridge_step C rnds b b' \<Longrightarrow> bridge_work b' < bridge_work b"
  unfolding bridge_step_def
  using up_turn_work down_turn_work by (metis bridge_turn.simps turn.exhaust)

lemma bridge_steps_work: "(bridge_step C rnds ^^ n) b b' \<Longrightarrow> n + bridge_work b' \<le> bridge_work b"
proof (induction n arbitrary: b')
  case (Suc n)
  then obtain b1 where "(bridge_step C rnds ^^ n) b b1" "bridge_step C rnds b1 b'" by auto
  with Suc.IH bridge_step_work show ?case by fastforce
qed simp

text \<open>A computation that waits only where no more bytes arrive on an open connection.\<close>

definition waits_silent :: "(stream, 'a, 'e) io \<Rightarrow> bool" where
  "waits_silent m \<longleftrightarrow> (\<forall>s s'. m s = (Pending, s') \<longrightarrow> rx_end s = Silent)"

lemma waits_silentD: "waits_silent m \<Longrightarrow> m s = (Pending, s') \<Longrightarrow> rx_end s = Silent"
  by (auto simp: waits_silent_def)

lemma waits_silent_simple [simp]: "waits_silent (io_ok a)" "waits_silent (io_err e)" "waits_silent (io_panic p)"
  by (simp_all add: waits_silent_def)

lemma waits_silent_read_exact [simp]: "waits_silent (read_exact n)"
  by (auto simp: waits_silent_def read_exact_def at_rx_end_def split: if_splits rx_end.splits)

lemma waits_silent_wsio [simp]: "waits_silent m \<Longrightarrow> waits_silent (wsio m)"
  by (auto simp: waits_silent_def wsio_def io_map_err_def split: prod.splits outcome.splits)

lemma waits_silent_bind:
  assumes "waits_silent m" "rx_only m" "\<And>a. waits_silent (f a)"
  shows "waits_silent (io_bind m f)"
  unfolding waits_silent_def
proof (intro allI impI)
  fix s s' assume b: "io_bind m f s = (Pending, s')"
  obtain r s1 where r: "m s = (r, s1)" by (cases "m s")
  have "rx_end s1 = rx_end s" using assms(2) r consumesD(3) [of s s1] by (metis rx_only_def snd_conv)
  with b r waits_silentD [OF assms(1), of s s1] waits_silentD [OF assms(3), of _ s1 s'] show "rx_end s = Silent"
    by (cases r) (auto simp: io_bind_def)
qed

lemma waits_silent_read_frame: "waits_silent read_frame"
proof -
  have "waits_silent (read_frame_length b)" for b
    by (auto simp: read_frame_length_def Let_def intro!: waits_silent_bind)
  then have body: "waits_silent (read_frame_body b0 b1)" for b0 b1
    by (auto simp: read_frame_body_def Let_def alloc_zeroed_def rx_only_read_frame_length intro!: waits_silent_bind)
  have w: "waits_silent (io_bind (read_frame_body b0 b1) (\<lambda>f. io_ok (Some f)))" for b0 b1
    by (rule waits_silent_bind) (simp_all add: body rx_only_read_frame_body)
  show ?thesis
    unfolding waits_silent_def
  proof (intro allI impI)
    fix s s' assume p: "read_frame s = (Pending, s')"
    obtain r s1 where r: "read_exact 2 s = (r, s1)" by (cases "read_exact 2 s")
    have "rx_end s1 = rx_end s" using rx_only_read_exact [of 2] r consumesD(3) [of s s1] by (metis rx_only_def snd_conv)
    then show "rx_end s = Silent"
      using p r waits_silentD [OF waits_silent_read_exact, of 2 s s1] waits_silentD [OF w, of _ _ s1 s']
      by (cases r) (auto simp: read_frame_def split: if_splits)
  qed
qed

lemma recv_frame_pending: "recv_frame s = (Pending, s') \<Longrightarrow> rx_end s = Silent"
proof (induction s rule: recv_frame.induct)
  case (1 s)
  obtain r s1 where r: "read_frame s = (r, s1)" by (cases "read_frame s")
  have "rx_end s1 = rx_end s" using rx_only_read_frame r consumesD(3) [of s s1] by (metis rx_only_def snd_conv)
  moreover have "r = Pending \<Longrightarrow> rx_end s = Silent"
    using waits_silent_read_frame r by (auto simp: waits_silent_def)
  ultimately show ?case
    using 1 r by (auto simp: recv_frame.simps [of s] split: outcome.splits option.splits ws_frame.splits)
qed

section \<open>Fair schedules\<close>

text \<open>
  What a fair schedule guarantees. Peers that close their sides and a server that does not ping
  leave nothing to wait for and nothing to fail at: as long as a loop runs, its turn is enabled,
  and it ends with success.
\<close>

fun is_ping :: "ws_frame \<Rightarrow> bool" where
  "is_ping (Ping p) = True"
| "is_ping _ = False"

definition smooth :: "'c bridge \<Rightarrow> bool" where
  "smooth b \<longleftrightarrow> tx_room (ws b) = None \<and> tx_room (client b) = None \<and> rx_end (ws b) = Eof \<and> rx_end (client b) = Eof
     \<and> \<not> writer_locked b \<and> shuts_down (ws b) \<and> shuts_down (client b)
     \<and> (up_result b = None \<longrightarrow> \<not> tx_shut (ws b)) \<and> (down_result b = None \<longrightarrow> \<not> tx_shut (client b))
     \<and> (\<exists>gs. (\<forall>g \<in> set gs. wf_server_frame g \<and> \<not> is_ping (server_view g)) \<and> rx (ws b) = concat (map server_bytes gs))
     \<and> (\<forall>r. up_result b = Some r \<longrightarrow> (\<exists>u. r = Ok u)) \<and> (\<forall>r. down_result b = Some r \<longrightarrow> (\<exists>d. r = Ok d))"

lemma smooth_up_turn:
  assumes "smooth b" "up_result b = None"
  obtains b' where "up_turn C rnds n b = Some b'" "smooth b'" "rx (ws b') = rx (ws b)" "down_result b' = down_result b"
    "up_result b' \<noteq> None \<or> length (rx (client b')) < length (rx (client b))"
proof (cases "rx (client b) = []")
  case True
  let ?b = "up_finish b"
  have t: "up_turn C rnds n b = Some ?b" using assms True by (simp add: up_turn_def smooth_def)
  have e: "?b = b\<lparr>ws := (ws b)\<lparr>tx_shut := True\<rparr>, up_result := Some (Ok ((up_stats b)\<lparr>end_reason := ''client_eof''\<rparr>))\<rparr>"
    using assms(1) by (intro up_finish_ok) (simp_all add: smooth_def)
  have "smooth ?b" using assms unfolding e by (auto simp: smooth_def shuts_down_def)
  with t show ?thesis using that by simp
next
  case False
  let ?ch = "take (max 1 (min n READ_BUF)) (rx (client b))"
  let ?b = "up_chunk C rnds ?ch b"
  have t: "up_turn C rnds n b = Some ?b" using assms(2) False by (simp add: up_turn_def)
  have "writable (ws b)" and l: "\<not> writer_locked b" using assms by (simp_all add: smooth_def writable_def)
  note s = send_parts_writable [OF this(1)]
  have f: "tx_room (ws ?b) = tx_room (ws b)" "tx_room (client ?b) = tx_room (client b)" "rx_end (ws ?b) = rx_end (ws b)"
    "rx_end (client ?b) = rx_end (client b)" "tx_shut (ws ?b) = tx_shut (ws b)" "tx_shut (client ?b) = tx_shut (client b)"
    "rx (ws ?b) = rx (ws b)" "up_result ?b = None" "down_result ?b = down_result b"
    "rx (client ?b) = drop (length ?ch) (rx (client b))" "writer_locked ?b = False"
    "shuts_down (ws ?b) = shuts_down (ws b)" "shuts_down (client ?b) = shuts_down (client b)"
    using l by (simp_all add: up_chunk_def up_read_def case_prod_beta s shuts_down_def)
  have "smooth ?b" using assms unfolding smooth_def f by simp
  moreover have "length (rx (client ?b)) < length (rx (client b))" using False unfolding f by simp
  ultimately show ?thesis using that [OF t] f by blast
qed

lemma smooth_down_turn:
  assumes "smooth b" "down_result b = None"
  obtains b' where "down_turn rnds b = Some b'" "smooth b'" "rx (client b') = rx (client b)" "up_result b' = up_result b"
    "down_result b' \<noteq> None \<or> length (rx (ws b')) < length (rx (ws b))"
proof -
  from assms(1) obtain gs where gs: "\<forall>g \<in> set gs. wf_server_frame g" "\<forall>g \<in> set gs. \<not> is_ping (server_view g)"
    "rx (ws b) = concat (map server_bytes gs)" by (auto simp: smooth_def)
  note recv = recv_frame_server [OF gs(1,3)]
  show ?thesis
  proof (cases "dropWhile (is_pong \<circ> server_view) gs")
    case Nil
    have "rx_end (ws b) = Eof" using assms(1) by (simp add: smooth_def)
    then have r: "recv_frame (ws b) = (Ok None, (ws b)\<lparr>rx := []\<rparr>)" using recv Nil by (simp add: recv_at_end_def)
    let ?b = "down_finish ''ws_eof'' (b\<lparr>ws := (ws b)\<lparr>rx := []\<rparr>\<rparr>)"
    have t: "down_turn rnds b = Some ?b" using assms(2) r by (simp add: down_turn_def)
    have e: "?b = b\<lparr>ws := (ws b)\<lparr>rx := []\<rparr>, client := (client b)\<lparr>tx_shut := True\<rparr>,
        down_result := Some (Ok ((down_stats b)\<lparr>end_reason := ''ws_eof''\<rparr>))\<rparr>"
      using assms(1) by (simp add: down_finish_ok smooth_def)
    have "smooth ?b" using assms unfolding e by (auto simp: smooth_def shuts_down_def intro: exI [of _ "[]"])
    with t show ?thesis using that by simp
  next
    case (Cons g rest)
    let ?w = "(ws b)\<lparr>rx := concat (map server_bytes rest)\<rparr>"
    have r: "recv_frame (ws b) = (Ok (incoming_of (server_view g)), ?w)" using recv Cons by simp
    have set: "set (g # rest) \<subseteq> set gs" using Cons by (metis set_dropWhileD subsetI)
    have g: "\<not> is_pong (server_view g)" "\<not> is_ping (server_view g)" using Cons gs(2) set by (auto simp: dropWhile_eq_Cons_conv)
    then obtain i where i: "incoming_of (server_view g) = Some i" using incoming_of_not_pong by blast
    with r recv_frame_consumes [of "ws b" i ?w] have lt: "length (rx ?w) < length (rx (ws b))" by simp
    have w: "writable (client b)" using assms by (simp add: smooth_def writable_def)
    have rest: "\<exists>gs'. (\<forall>g \<in> set gs'. wf_server_frame g \<and> \<not> is_ping (server_view g)) \<and> rx ?w = concat (map server_bytes gs')"
      using set gs(1,2) by (intro exI [of _ rest]) auto
    from g i consider (data) p where "i = InBinary p" | (cl) info where "i = InClose info" by (cases "server_view g") auto
    then show ?thesis
    proof cases
      case data
      let ?b = "b\<lparr>client := (client b)\<lparr>tx := tx (client b) @ p\<rparr>, ws := ?w, down_stats := count (length p) (down_stats b)\<rparr>"
      have t: "down_turn rnds b = Some ?b"
        using assms(2) r i data w by (simp add: down_turn_def)
      have "smooth ?b" using assms rest by (simp add: smooth_def shuts_down_def)
      with t lt show ?thesis using that by simp
    next
      case cl
      let ?b = "down_finish (close_reason info) (b\<lparr>ws := ?w\<rparr>)"
      have t: "down_turn rnds b = Some ?b" using assms(2) r i cl by (simp add: down_turn_def)
      have e: "?b = b\<lparr>ws := ?w, client := (client b)\<lparr>tx_shut := True\<rparr>,
          down_result := Some (Ok ((down_stats b)\<lparr>end_reason := close_reason info\<rparr>))\<rparr>"
        using assms(1) by (simp add: down_finish_ok smooth_def)
      have "smooth ?b" using assms rest unfolding e by (auto simp: smooth_def shuts_down_def)
      with t show ?thesis using that by simp
    qed
  qed
qed

fun is_up :: "turn \<Rightarrow> bool" where
  "is_up (Up n) = True"
| "is_up Down = False"

definition up_left :: "'c bridge \<Rightarrow> nat" where
  "up_left b = (if up_result b = None then Suc (length (rx (client b))) else 0)"

definition down_left :: "'c bridge \<Rightarrow> nat" where
  "down_left b = (if down_result b = None then Suc (length (rx (ws b))) else 0)"

lemma run_bridge_smooth:
  assumes "smooth b"
  shows "smooth (run_bridge C rnds sched b)
    \<and> up_left (run_bridge C rnds sched b) \<le> up_left b - length (filter is_up sched)
    \<and> down_left (run_bridge C rnds sched b) \<le> down_left b - length (filter (\<lambda>t. \<not> is_up t) sched)"
  using assms
proof (induction sched arbitrary: b)
  case (Cons t sched)
  have "\<exists>b1. run_bridge C rnds (t # sched) b = run_bridge C rnds sched b1 \<and> smooth b1
    \<and> up_left b1 \<le> up_left b - (if is_up t then 1 else 0) \<and> down_left b1 \<le> down_left b - (if is_up t then 0 else 1)"
  proof (cases t)
    case (Up n)
    show ?thesis
    proof (cases "up_result b")
      case None
      from smooth_up_turn [OF Cons.prems None] obtain b' where "up_turn C rnds n b = Some b'" "smooth b'"
        "rx (ws b') = rx (ws b)" "down_result b' = down_result b"
        "up_result b' \<noteq> None \<or> length (rx (client b')) < length (rx (client b))" by metis
      with Up None show ?thesis by (intro exI [of _ b']) (auto simp: run_bridge_def up_left_def down_left_def)
    qed (use Up Cons.prems in \<open>auto intro!: exI [of _ b] simp: run_bridge_def up_left_def up_turn_def\<close>)
  next
    case Down
    show ?thesis
    proof (cases "down_result b")
      case None
      from smooth_down_turn [OF Cons.prems None] obtain b' where "down_turn rnds b = Some b'" "smooth b'"
        "rx (client b') = rx (client b)" "up_result b' = up_result b"
        "down_result b' \<noteq> None \<or> length (rx (ws b')) < length (rx (ws b))" by metis
      with Down None show ?thesis by (intro exI [of _ b']) (auto simp: run_bridge_def up_left_def down_left_def)
    qed (use Down Cons.prems in \<open>auto intro!: exI [of _ b] simp: run_bridge_def down_left_def down_turn_def\<close>)
  qed
  then obtain b1 where b1: "run_bridge C rnds (t # sched) b = run_bridge C rnds sched b1" "smooth b1"
    "up_left b1 \<le> up_left b - (if is_up t then 1 else 0)" "down_left b1 \<le> down_left b - (if is_up t then 0 else 1)" by blast
  from Cons.IH [OF b1(2)] b1(3,4) show ?case unfolding b1(1) by (auto split: if_splits)
qed (simp add: run_bridge_def)

section \<open>Properties of the bridge\<close>

context stream_cipher
begin

lemma run_bridge_upstream:
  assumes "wf_draws rnds" "writable w" "length init_data \<le> isize_max"
    and "bridge_start rnds c w init_data sp = Ok b0" "b = run_bridge C rnds sched b0"
  shows "\<exists>sent n frames. rx c = sent @ rx (client b)
    \<and> prefix (tx w) (tx (ws b))
    \<and> fst (read_n n read_frame (open_stream (drop (length (tx w)) (tx (ws b))) Eof)) = Ok frames \<and> n > length frames
    \<and> concat (map data_of frames) = init_data @ sent
    \<and> st_bytes (up_stats b) = word_of_nat (length sent)
    \<and> (up_result b \<noteq> None \<longrightarrow> sent = rx c)"
proof -
  have "up_inv (tx w) init_data (rx c) b0"
    using up_inv_start [OF assms(2,1,3,4)] .
  moreover have "up_inv (tx w) init_data (rx c) b2"
    if "up_inv (tx w) init_data (rx c) b1" "bridge_turn C rnds t b1 = Some b2" for t b1 b2
    using that up_turn_inv [OF that(1) assms(1)] down_turn_inv_up [OF that(1) assms(1)] by (cases t) auto
  ultimately have "up_inv (tx w) init_data (rx c) b"
    unfolding assms(5) by (rule run_bridge_inv [rotated])
  then obtain fs sent where fs: "up_written (tx w) init_data (rx c) b fs sent"
    and all: "up_result b \<noteq> None \<longrightarrow> rx (client b) = []" by (auto simp: up_inv_def)
  then have "read_n (Suc (length fs)) read_frame (open_stream (drop (length (tx w)) (tx (ws b))) Eof)
      = (Ok (map client_view fs), (open_stream (drop (length (tx w)) (tx (ws b))) Eof)\<lparr>rx := []\<rparr>)"
    by (intro client_codec.read_n_all) (auto simp: up_written_def)
  with fs all show ?thesis
    by (intro exI [of _ sent] exI [of _ "Suc (length fs)"] exI [of _ "map client_view fs"])
      (auto simp: up_written_def)
qed

end

text \<open>
  C8. Nothing is lost, added or reordered upstream, for every interleaving of the two loops
  and every way the client's bytes arrive: a reader of the bytes written
  to the WebSocket behind the upgrade request gets frames whose data, put together, are the
  init packet followed by exactly the bytes taken from the client so far; pongs come between
  whole frames and carry no data. The upstream byte counter is the number of these bytes,
  and once the upstream loop has ended, they are all the client has sent.
\<close>

theorem bridge_upstream_lossless:
  assumes "wf_draws rnds" "writable w" "length init_data \<le> isize_max"
    and "bridge_start rnds c w init_data sp = Ok b0" "b = run_bridge (ctr_api enc) rnds sched b0"
  shows "\<exists>sent n frames. rx c = sent @ rx (client b)
    \<and> prefix (tx w) (tx (ws b))
    \<and> fst (read_n n read_frame (open_stream (drop (length (tx w)) (tx (ws b))) Eof)) = Ok frames \<and> n > length frames
    \<and> concat (map data_of frames) = init_data @ sent
    \<and> st_bytes (up_stats b) = word_of_nat (length sent)
    \<and> (up_result b \<noteq> None \<longrightarrow> sent = rx c)"
  using assms by (rule ctr.run_bridge_upstream)

definition demo_client :: stream where
  "demo_client = open_stream [1, 2, 3, 4, 5] Eof"

definition demo_ws :: stream where
  "demo_ws = open_stream (concat (map server_bytes [(0x89, [9]), (0x82, [7, 7]), (0x8A, []), (0x80, [8])])) Eof"

definition demo_bridge :: "ctr_state bridge" where
  "demo_bridge = \<lparr>client = demo_client, ws = demo_ws\<lparr>tx := build_frame None [0]\<rparr>, draws = 1, up_splitter = None,
     up_stats = no_stats, up_result = None, down_stats = no_stats, down_result = None, writer_locked = False\<rparr>"

lemma demo_start: "bridge_start (\<lambda>_. None) demo_client demo_ws [0] None = Ok demo_bridge"
  "writable demo_ws" "tx demo_ws = []" "writable demo_client" "wf_draws (\<lambda>_. None)"
  by (simp_all add: bridge_start_writable demo_bridge_def demo_ws_def demo_client_def wf_draws_def wf_mask_def)

theorem bridge_upstream_lossless_witness:
  "\<exists>sent n frames. [1, 2, 3, 4, 5] = sent @ [4, 5]
    \<and> fst (read_n n read_frame (open_stream (tx (ws (run_bridge (ctr_api demo_block) (\<lambda>_. None) [Up 2, Down, Up 1]
          demo_bridge))) Eof)) = Ok frames
    \<and> concat (map data_of frames) = [0] @ sent"
proof -
  let ?b = "run_bridge (ctr_api demo_block) (\<lambda>_. None) [Up 2, Down, Up 1] demo_bridge"
  have r: "rx (client ?b) = [4, 5]" by code_simp
  have l: "length ([0] :: bytes) \<le> isize_max" "rx demo_client = [1, 2, 3, 4, 5]"
    by (simp_all add: isize_max_def demo_client_def)
  from bridge_upstream_lossless [OF demo_start(5,2) l(1) demo_start(1) refl, of demo_block "[Up 2, Down, Up 1]"]
  show ?thesis unfolding r l(2) demo_start(3) by auto
qed

lemma run_bridge_down_inv:
  assumes "\<forall>g \<in> set gs. wf_server_frame g" "rx w = concat (map server_bytes gs)" "writable w" "writable c"
    and "bridge_start rnds c w init_data sp = Ok b0"
  shows "down_inv gs (tx c) (rx_end w) (run_bridge C rnds sched b0)"
proof -
  have "b0 = \<lparr>client = c, ws = w\<lparr>tx := tx w @ build_frame (rnds 0) init_data\<rparr>, draws = 1, up_splitter = sp,
       up_stats = no_stats, up_result = None, down_stats = no_stats, down_result = None, writer_locked = False\<rparr>"
    using assms(5) bridge_start_writable [OF assms(3), of rnds c init_data sp] by simp
  then have "down_inv gs (tx c) (rx_end w) b0"
    using assms(2,4) by (intro down_invI [of gs "[]" gs]) (simp_all add: no_stats_def writable_def)
  moreover have "down_inv gs (tx c) (rx_end w) b2"
    if "down_inv gs (tx c) (rx_end w) b1" "bridge_turn C rnds t b1 = Some b2" for t b1 b2
    using that down_inv_up_turn [OF that(1)] down_inv_down_turn [OF assms(1) that(1)] by (cases t) auto
  ultimately show ?thesis by (rule run_bridge_inv [rotated])
qed

lemma run_bridge_downstream:
  assumes "\<forall>g \<in> set gs. wf_server_frame g" "rx w = concat (map server_bytes gs)" "writable w" "writable c"
    and "bridge_start rnds c w init_data sp = Ok b0" "b = run_bridge C rnds sched b0"
  shows "\<exists>j. tx (client b) = tx c @ concat (map (data_of \<circ> server_view) (take j gs))
    \<and> rx (ws b) = concat (map server_bytes (drop j gs))
    \<and> st_bytes (down_stats b) = word_of_nat (length (tx (client b)) - length (tx c))"
proof -
  have "down_inv gs (tx c) (rx_end w) b" unfolding assms(6) by (rule run_bridge_down_inv [OF assms(1-5)])
  then obtain dn todo where "gs = dn @ todo" "rx (ws b) = concat (map server_bytes todo)"
    "tx (client b) = tx c @ frames_data dn" "st_bytes (down_stats b) = word_of_nat (length (frames_data dn))"
    by (auto simp: down_inv_def)
  then show ?thesis by (intro exI [of _ "length dn"]) (simp add: frames_data_def)
qed

text \<open>The statistics a loop ends with are its counters; the upstream ends regularly only at the client's end.\<close>

definition results_inv :: "'c bridge \<Rightarrow> bool" where
  "results_inv b \<longleftrightarrow>
     (\<forall>u. up_result b = Some (Ok u) \<longrightarrow> u = (up_stats b)\<lparr>end_reason := ''client_eof''\<rparr>)
     \<and> (\<forall>d. down_result b = Some (Ok d) \<longrightarrow> (\<exists>why. d = (down_stats b)\<lparr>end_reason := why\<rparr>) \<and> tx_shut (client b))"

lemma up_turn_results: "results_inv b \<Longrightarrow> up_turn C rnds n b = Some b' \<Longrightarrow> results_inv b'"
  by (auto simp: results_inv_def up_turn_def up_chunk_def up_read_def loop_end_not_Ok
      split: if_splits rx_end.splits prod.splits option.splits)

lemma down_turn_results: "results_inv b \<Longrightarrow> down_turn rnds b = Some b' \<Longrightarrow> results_inv b'"
  by (auto simp: results_inv_def down_turn_def loop_end_not_Ok
      split: if_splits prod.splits outcome.splits option.splits ws_incoming.splits)

lemma run_bridge_results: "results_inv b \<Longrightarrow> results_inv (run_bridge C rnds sched b)"
proof (rule run_bridge_inv)
  show "results_inv b'" if "results_inv b1" "bridge_turn C rnds t b1 = Some b'" for t b1 b'
    using that up_turn_results down_turn_results by (cases t) auto
qed

lemma bridge_ws_tcp_OkD:
  assumes "bridge_ws_tcp C rnds sched c w init_data sp = (Ok (u, d), Some b)"
  obtains b0 where "bridge_start rnds c w init_data sp = Ok b0" "b = run_bridge C rnds sched b0"
    "up_result b = Some (Ok u)" "down_result b = Some (Ok d)"
  using assms
  by (auto simp: bridge_ws_tcp_def bridge_result_def split: outcome.splits option.splits)

text \<open>
  Nothing is lost, added or reordered downstream either: when the server sends whole
  frames, the client has at every moment been sent exactly the data of a prefix of these
  frames, in order, whatever the interleaving; control frames contribute nothing. The
  downstream byte counter is the number of bytes sent.
\<close>

theorem bridge_downstream_lossless:
  assumes "\<forall>g \<in> set gs. wf_server_frame g" "rx w = concat (map server_bytes gs)" "writable w" "writable c"
    and "bridge_start rnds c w init_data sp = Ok b0" "b = run_bridge C rnds sched b0"
  shows "\<exists>j. tx (client b) = tx c @ concat (map (data_of \<circ> server_view) (take j gs))
    \<and> rx (ws b) = concat (map server_bytes (drop j gs))
    \<and> st_bytes (down_stats b) = word_of_nat (length (tx (client b)) - length (tx c))"
  using assms by (rule run_bridge_downstream)

theorem bridge_downstream_lossless_witness:
  "\<exists>j. tx (client (run_bridge (ctr_api demo_block) (\<lambda>_. None) [Down, Up 5, Down, Down] demo_bridge))
    = concat (map (data_of \<circ> server_view) (take j [(0x89, [9]), (0x82, [7, 7]), (0x8A, []), (0x80, [8])]))"
proof -
  have "\<forall>g \<in> set [(0x89, [9]), (0x82, [7, 7]), (0x8A, []), (0x80, [8])]. wf_server_frame g"
    "rx demo_ws = concat (map server_bytes [(0x89, [9]), (0x82, [7, 7]), (0x8A, []), (0x80, [8])])" "tx demo_client = []"
    by (simp_all add: wf_server_frame_def isize_max_def demo_ws_def demo_client_def)
  from bridge_downstream_lossless [OF this(1,2) demo_start(2,4,1) refl, of "ctr_api demo_block" "[Down, Up 5, Down, Down]"]
    this(3) show ?thesis by auto
qed

lemma bridge_delivers:
  assumes "wf_draws rnds" "length init_data \<le> isize_max" "writable w" "writable c"
    and "\<forall>g \<in> set gs. wf_server_frame g" "rx w = concat (map server_bytes gs)"
    and "bridge_ws_tcp (ctr_api enc) rnds sched c w init_data sp = (Ok (u, d), Some b)"
  shows "tx (client b) = tx c @ down_data gs \<and> tx_shut (client b)
    \<and> (\<exists>n frames. fst (read_n n read_frame (open_stream (drop (length (tx w)) (tx (ws b))) Eof)) = Ok frames
         \<and> n > length frames \<and> concat (map data_of frames) = init_data @ rx c)
    \<and> st_bytes u = word_of_nat (length (rx c)) \<and> st_bytes d = word_of_nat (length (down_data gs))
    \<and> end_reason u = ''client_eof''"
proof -
  from assms(7) obtain b0 where b0: "bridge_start rnds c w init_data sp = Ok b0"
    and b: "b = run_bridge (ctr_api enc) rnds sched b0"
    and r: "up_result b = Some (Ok u)" "down_result b = Some (Ok d)"
    by (rule bridge_ws_tcp_OkD)
  have "results_inv b0"
    using b0 bridge_start_writable [OF assms(3), of rnds c init_data sp] by (auto simp: results_inv_def)
  then have "results_inv b" unfolding b by (rule run_bridge_results)
  with r obtain why where st: "u = (up_stats b)\<lparr>end_reason := ''client_eof''\<rparr>"
    "d = (down_stats b)\<lparr>end_reason := why\<rparr>" "tx_shut (client b)"
    by (auto simp: results_inv_def)
  have "down_inv gs (tx c) (rx_end w) b"
    unfolding b by (rule run_bridge_down_inv [OF assms(5,6,3,4) b0])
  with r(2) have "tx (client b) = tx c @ down_data gs" "st_bytes (down_stats b) = word_of_nat (length (down_data gs))"
    by (auto simp: down_inv_def)
  with st ctr.run_bridge_upstream [OF assms(1,3,2) b0 b] r(1) show ?thesis by fastforce
qed

text \<open>
  C10. A relay that succeeds has delivered everything, for every interleaving of its loops and
  every way the bytes arrive: a reader of the WebSocket gets the init packet and all that the
  client has sent, the client gets the data of all the server's frames up to its close (or to
  its end), both counters are these lengths modulo 64 bits, the upstream ended with the
  client's end and the client's connection has been shut down. So two runs on the same peers
  that both succeed have relayed the same bytes.
\<close>

theorem bridge_success_is_complete:
  assumes "wf_draws rnds" "length init_data \<le> isize_max" "writable w" "writable c"
    and "\<forall>g \<in> set gs. wf_server_frame g" "rx w = concat (map server_bytes gs)"
    and "bridge_ws_tcp (ctr_api enc) rnds sched c w init_data sp = (Ok (u, d), Some b)"
  shows "tx (client b) = tx c @ down_data gs \<and> tx_shut (client b)
    \<and> (\<exists>n frames. fst (read_n n read_frame (open_stream (drop (length (tx w)) (tx (ws b))) Eof)) = Ok frames
         \<and> n > length frames \<and> concat (map data_of frames) = init_data @ rx c)
    \<and> st_bytes u = word_of_nat (length (rx c)) \<and> st_bytes d = word_of_nat (length (down_data gs))
    \<and> end_reason u = ''client_eof''"
  using assms by (rule bridge_delivers)

definition demo_turns :: "turn list" where
  "demo_turns = [Down, Up 4, Down, Up 9, Down, Up 1, Down]"

theorem bridge_success_is_complete_witness:
  "\<exists>u d b. bridge_ws_tcp (ctr_api demo_block) (\<lambda>_. None) demo_turns demo_client demo_ws [0] None = (Ok (u, d), Some b)
    \<and> tx (client b) = [7, 7, 8] \<and> st_bytes u = 5 \<and> st_bytes d = 3"
proof -
  let ?gs = "[(0x89, [9]), (0x82, [7, 7]), (0x8A, []), (0x80, [8])] :: (byte \<times> bytes) list"
  let ?b = "run_bridge (ctr_api demo_block) (\<lambda>_. None) demo_turns demo_bridge"
  have "case bridge_result ?b of Ok _ \<Rightarrow> True | _ \<Rightarrow> False" by code_simp
  then obtain u d where "bridge_result ?b = Ok (u, d)" by (auto split: outcome.splits)
  then have r: "bridge_ws_tcp (ctr_api demo_block) (\<lambda>_. None) demo_turns demo_client demo_ws [0] None = (Ok (u, d), Some ?b)"
    by (simp add: bridge_ws_tcp_def demo_start(1))
  have gs: "\<forall>g \<in> set ?gs. wf_server_frame g" "rx demo_ws = concat (map server_bytes ?gs)" "tx demo_client = []"
    "rx demo_client = [1, 2, 3, 4, 5]" "length ([0] :: bytes) \<le> isize_max" "down_data ?gs = [7, 7, 8]"
    by (simp_all add: wf_server_frame_def isize_max_def demo_ws_def demo_client_def down_data_def frame_of_opcode_def)
  from bridge_success_is_complete [OF demo_start(5) gs(5) demo_start(2,4) gs(1,2) r] gs(3,4,6) r show ?thesis
    by auto
qed

lemma bridge_ends_well:
  assumes "wf_draws rnds" "length init_data \<le> isize_max" "writable w" "writable c"
    and "\<forall>g \<in> set gs. wf_server_frame g \<and> \<not> is_ping (server_view g)" "rx w = concat (map server_bytes gs)"
    and "rx_end w = Eof" "rx_end c = Eof" "shuts_down w" "shuts_down c"
    and "length (rx c) < length (filter is_up sched)" "length (rx w) < length (filter (\<lambda>t. \<not> is_up t) sched)"
  shows "\<exists>u d b n frames. bridge_ws_tcp (ctr_api enc) rnds sched c w init_data sp = (Ok (u, d), Some b)
    \<and> tx (client b) = tx c @ down_data gs \<and> rx (client b) = []
    \<and> fst (read_n n read_frame (open_stream (drop (length (tx w)) (tx (ws b))) Eof)) = Ok frames
    \<and> n > length frames \<and> concat (map data_of frames) = init_data @ rx c"
proof -
  let ?start = "\<lparr>client = c, ws = w\<lparr>tx := tx w @ build_frame (rnds 0) init_data\<rparr>, draws = 1, up_splitter = sp,
       up_stats = no_stats, up_result = None, down_stats = no_stats, down_result = None, writer_locked = False\<rparr>"
  let ?b = "run_bridge (ctr_api enc) rnds sched ?start"
  note b0 = bridge_start_writable [OF assms(3), of rnds c init_data sp]
  have "smooth ?start" using assms(3-10) by (auto simp: smooth_def writable_def shuts_down_def)
  from run_bridge_smooth [OF this, of "ctr_api enc" rnds sched] assms(11,12)
  have "smooth ?b" "up_result ?b \<noteq> None" "down_result ?b \<noteq> None"
    by (auto simp: up_left_def down_left_def split: if_splits)
  then obtain u d where r: "up_result ?b = Some (Ok u)" "down_result ?b = Some (Ok d)" by (auto simp: smooth_def)
  then have "bridge_ws_tcp (ctr_api enc) rnds sched c w init_data sp = (Ok (u, d), Some ?b)"
    by (simp add: bridge_ws_tcp_def b0 bridge_result_def)
  moreover have "down_inv gs (tx c) (rx_end w) ?b"
    by (rule run_bridge_down_inv [OF _ assms(6,3,4) b0]) (use assms(5) in simp)
  then have "tx (client ?b) = tx c @ down_data gs" using r(2) by (auto simp: down_inv_def)
  ultimately show ?thesis
    using ctr.run_bridge_upstream [OF assms(1,3,2) b0 refl] r(1) by fastforce
qed

text \<open>
  C9. A relay between peers that end succeeds: when the client and the server close their sides,
  take all that is written to them and let their connections be shut down, and the server's frames
  contain no ping, every schedule that gives each loop as many turns as it
  has bytes to read plus one ends both loops without an error, whatever the order of the turns and
  the sizes of the reads, and then the client has got all data up to the server's close and the
  client's bytes have all been relayed.
\<close>

theorem bridge_completes:
  assumes "wf_draws rnds" "length init_data \<le> isize_max" "writable w" "writable c"
    and "\<forall>g \<in> set gs. wf_server_frame g \<and> \<not> is_ping (server_view g)" "rx w = concat (map server_bytes gs)"
    and "rx_end w = Eof" "rx_end c = Eof" "shuts_down w" "shuts_down c"
    and "length (rx c) < length (filter is_up sched)" "length (rx w) < length (filter (\<lambda>t. \<not> is_up t) sched)"
  shows "\<exists>u d b n frames. bridge_ws_tcp (ctr_api enc) rnds sched c w init_data sp = (Ok (u, d), Some b)
    \<and> tx (client b) = tx c @ down_data gs \<and> rx (client b) = []
    \<and> fst (read_n n read_frame (open_stream (drop (length (tx w)) (tx (ws b))) Eof)) = Ok frames
    \<and> n > length frames \<and> concat (map data_of frames) = init_data @ rx c"
  using assms by (rule bridge_ends_well)

definition demo_quiet_ws :: stream where
  "demo_quiet_ws = open_stream (concat (map server_bytes [(0x82, [7, 7]), (0x8A, [])])) Eof"

theorem bridge_completes_witness:
  "\<exists>u d b. bridge_ws_tcp (ctr_api demo_block) (\<lambda>_. None) (replicate 6 (Up 3) @ replicate 7 Down) demo_client demo_quiet_ws [0] None
      = (Ok (u, d), Some b) \<and> tx (client b) = [7, 7]"
proof -
  let ?gs = "[(0x82, [7, 7]), (0x8A, [])] :: (byte \<times> bytes) list"
  have gs: "\<forall>g \<in> set ?gs. wf_server_frame g \<and> \<not> is_ping (server_view g)" "rx demo_quiet_ws = concat (map server_bytes ?gs)"
    "rx_end demo_quiet_ws = Eof" "rx_end demo_client = Eof" "shuts_down demo_quiet_ws" "shuts_down demo_client"
    "writable demo_quiet_ws" "length ([0] :: bytes) \<le> isize_max"
    by (simp_all add: wf_server_frame_def isize_max_def demo_quiet_ws_def demo_client_def frame_of_opcode_def)
  have "length (rx demo_client) < length (filter is_up (replicate 6 (Up 3) @ replicate 7 Down))"
    "length (rx demo_quiet_ws) < length (filter (\<lambda>t. \<not> is_up t) (replicate 6 (Up 3) @ replicate 7 Down))"
    "tx demo_client @ down_data ?gs = [7, 7]" by code_simp+
  with bridge_completes [OF demo_start(5) gs(8,7) demo_start(4) gs(1-6)] show ?thesis by metis
qed

section \<open>Peers that keep nobody waiting\<close>

text \<open>
  A peer that neither falls silent on an open connection nor stops taking bytes, and whose
  connection can be shut down at once or fails to.
\<close>

definition never_waits :: "stream \<Rightarrow> bool" where
  "never_waits s \<longleftrightarrow> rx_end s \<noteq> Silent \<and> (tx_room s \<noteq> None \<longrightarrow> tx_end s \<noteq> TxWaits) \<and> on_shutdown s \<noteq> ShutWaits"

text \<open>A computation that does not wait for such a peer, and keeps it one.\<close>

definition waitless :: "(stream, 'a, 'e) io \<Rightarrow> bool" where
  "waitless m \<longleftrightarrow> (\<forall>s r s'. never_waits s \<longrightarrow> m s = (r, s') \<longrightarrow> \<not> is_pending r \<and> never_waits s')"

lemma waitlessD: "waitless m \<Longrightarrow> never_waits s \<Longrightarrow> m s = (r, s') \<Longrightarrow> \<not> is_pending r \<and> never_waits s'"
  by (auto simp: waitless_def)

lemma waitless_basic [simp]:
  "waitless (io_ok a)" "waitless (write_all bs)" "waitless flush" "waitless shutdown"
  by (auto simp: waitless_def never_waits_def write_all_def flush_def shutdown_def
      split: if_splits option.splits tx_end.splits shut_end.splits)

lemma waitless_wsio [simp]: "waitless m \<Longrightarrow> waitless (wsio m)"
  unfolding waitless_def wsio_def io_map_err_def by (auto split: prod.splits outcome.splits)

lemma waitless_bind:
  assumes "waitless m" "\<And>a. waitless (f a)"
  shows "waitless (io_bind m f)"
  unfolding waitless_def
proof (intro allI impI)
  fix s r s' assume s: "never_waits s" and b: "io_bind m f s = (r, s')"
  obtain q s1 where q: "m s = (q, s1)" by (cases "m s")
  note m = waitlessD [OF assms(1) s q]
  show "\<not> is_pending r \<and> never_waits s'"
  proof (cases q)
    case (Ok a)
    with b q m waitlessD [OF assms(2), of s1 a r s'] show ?thesis by simp
  qed (use b q m in \<open>auto simp: io_bind_def\<close>)
qed

lemma waitless_send [simp]:
  "waitless (send_raw frame)" "waitless (ws_send rnd p)" "waitless (send_control_frame rnd op p)" "waitless ws_close"
  by (simp_all add: send_raw_def ws_send_def send_control_frame_def ws_close_def waitless_bind)

lemma waitless_send_parts [simp]: "waitless (send_parts rnds k ps)"
  by (induction ps arbitrary: k) (simp_all add: waitless_bind)

lemma never_waits_consumes: "consumes s s' \<Longrightarrow> never_waits s' = never_waits s"
  by (simp add: never_waits_def consumesD)

lemma loop_end_pending: "loop_end f r = Some Pending \<longleftrightarrow> is_pending r"
  by (cases r) auto

definition unblocked :: "'c bridge \<Rightarrow> bool" where
  "unblocked b \<longleftrightarrow> never_waits (client b) \<and> never_waits (ws b) \<and> \<not> writer_locked b
     \<and> up_result b \<noteq> Some Pending \<and> down_result b \<noteq> Some Pending"

lemma up_turn_unblocked:
  assumes "unblocked b" "up_turn C rnds n b = Some b'"
  shows "unblocked b'"
proof -
  have l: "\<not> writer_locked b" and w: "never_waits (ws b)" and c: "never_waits (client b)"
    using assms(1) by (simp_all add: unblocked_def)
  have c': "never_waits ((client b)\<lparr>rx := x\<rparr>)" for x using c by (simp add: never_waits_def)
  consider (chunk) ch where "b' = up_chunk C rnds ch b" | (finish) "b' = up_finish b"
    | (err) e where "b' = b\<lparr>up_result := Some (Err (ClientIo e))\<rparr>"
    using assms(2) by (auto simp: up_turn_def split: if_splits rx_end.splits)
  then show ?thesis
  proof cases
    case chunk
    obtain parts sp where p: "split_parts C (up_splitter b) ch = (parts, sp)"
      by (cases "split_parts C (up_splitter b) ch")
    obtain r s where s: "send_parts rnds (draws b) parts (ws b) = (r, s)"
      by (cases "send_parts rnds (draws b) parts (ws b)")
    have "\<not> is_pending r" "never_waits s" using waitlessD [OF waitless_send_parts w s] by auto
    with assms(1) l c' show ?thesis unfolding chunk
      by (simp add: unblocked_def up_chunk_def up_read_def p s loop_end_pending)
  next
    case finish
    obtain r s where s: "ws_close (ws b) = (r, s)" by (cases "ws_close (ws b)")
    have "\<not> is_pending r" "never_waits s" using waitlessD [OF waitless_send(4) w s] by auto
    with assms(1) l s show ?thesis unfolding finish
      by (auto simp: unblocked_def up_finish_def loop_end_pending split: option.split)
  next
    case err
    with assms(1) show ?thesis by (simp add: unblocked_def)
  qed
qed

lemma down_turn_unblocked:
  assumes "unblocked b" "down_turn rnds b = Some b'"
  shows "unblocked b'"
proof -
  have u: "\<not> writer_locked b" "never_waits (ws b)" "never_waits (client b)" "up_result b \<noteq> Some Pending"
    using assms(1) by (simp_all add: unblocked_def)
  obtain r w where r: "recv_frame (ws b) = (r, w)" by (cases "recv_frame (ws b)")
  have w: "never_waits w" using rx_only_recv_frame r u(2) never_waits_consumes by (metis rx_only_def snd_conv)
  have fin: "unblocked (down_finish why (b\<lparr>ws := w\<rparr>))" for why
  proof -
    obtain q c where q: "shutdown (client b) = (q, c)" by (cases "shutdown (client b)")
    have "\<not> is_pending q" "never_waits c" using waitlessD [OF waitless_basic(4) u(3) q] by auto
    with u w q show ?thesis by (auto simp: unblocked_def down_finish_def loop_end_pending split: option.split)
  qed
  consider (data) d q c where "write_all d (client b) = (q, c)"
      "b' = b\<lparr>client := c, ws := w, down_stats := count (length d) (down_stats b), down_result := loop_end ClientIo q\<rparr>"
    | (ping) p where "r = Ok (Some (InPing p))" | (fin) why where "b' = down_finish why (b\<lparr>ws := w\<rparr>)"
    | (ended) q where "b' = b\<lparr>ws := w, down_result := Some q\<rparr>" "\<not> is_pending q"
    using assms(2) r
    by (auto simp: down_turn_def split: if_splits prod.splits outcome.splits option.splits ws_incoming.splits)
  then show ?thesis
  proof cases
    case data
    have "\<not> is_pending q" "never_waits c" using waitlessD [OF waitless_basic(2) u(3) data(1)] by auto
    with u w show ?thesis unfolding data(2) by (simp add: unblocked_def loop_end_pending)
  next
    case ping
    from assms(2) r [unfolded ping] show ?thesis
    proof (cases rule: down_turn_ping)
      case (pong q w')
      have "\<not> is_pending q" "never_waits w'" using waitlessD [OF waitless_send(3) w pong(2)] by auto
      with u show ?thesis unfolding pong(3) by (simp add: unblocked_def loop_end_pending)
    qed (use u in simp)
  next
    case fin
    then show ?thesis using \<open>\<And>why. unblocked (down_finish why (b\<lparr>ws := w\<rparr>))\<close> by simp
  next
    case ended
    with u w show ?thesis by (auto simp: unblocked_def)
  qed
qed

lemma bridge_steps_unblocked: "(bridge_step C rnds ^^ n) b b' \<Longrightarrow> unblocked b \<Longrightarrow> unblocked b'"
proof (induction n arbitrary: b')
  case (Suc n)
  then obtain b1 where "(bridge_step C rnds ^^ n) b b1" "bridge_step C rnds b1 b'" by auto
  moreover from this(2) obtain t where "bridge_turn C rnds t b1 = Some b'" by (auto simp: bridge_step_def)
  ultimately have "(bridge_step C rnds ^^ n) b b1" "bridge_turn C rnds t b1 = Some b'" by simp_all
  with Suc.IH Suc.prems(2) up_turn_unblocked [of b1 C rnds] down_turn_unblocked [of b1 rnds b'] show ?case
    by (cases t) auto
qed simp

text \<open>
  C13. The bridge ends: no run has more turns than there are bytes to relay, plus two; and
  when neither peer falls silent on an open connection, stops taking bytes while keeping the
  connection, or never completes a shutdown, then a run can only stop when both loops have
  ended, with a value, an error or a panic, so the joined result is there.
\<close>

theorem bridge_terminates:
  assumes "bridge_start rnds c w init_data sp = Ok b0" "(bridge_step C rnds ^^ n) b0 b"
  shows "n \<le> length (rx c) + length (rx w) + 2
    \<and> (never_waits c \<longrightarrow> never_waits w \<longrightarrow> (\<forall>b'. \<not> bridge_step C rnds b b') \<longrightarrow>
         (\<exists>r. up_result b = Some r \<and> r \<noteq> Pending) \<and> (\<exists>r. down_result b = Some r \<and> r \<noteq> Pending)
         \<and> bridge_result b \<noteq> Pending)"
proof (intro conjI impI)
  obtain u w' where s: "ws_send (rnds 0) init_data w = (Ok u, w')"
    using assms(1) by (auto simp: bridge_start_def split: prod.splits outcome.splits)
  then have b0: "b0 = \<lparr>client = c, ws = w', draws = 1, up_splitter = sp, up_stats = no_stats,
      up_result = None, down_stats = no_stats, down_result = None, writer_locked = False\<rparr>"
    using assms(1) by (simp add: bridge_start_def)
  have "rx w' = rx w" using send_raw_rx [of "build_frame (rnds 0) init_data" w] s by (simp add: ws_send_def)
  then show "n \<le> length (rx c) + length (rx w) + 2"
    using bridge_steps_work [OF assms(2)] b0 by (simp add: bridge_work_def split: if_splits)
  assume nw: "never_waits c" "never_waits w" and stuck: "\<forall>b'. \<not> bridge_step C rnds b b'"
  have "unblocked b0" using nw waitlessD [OF waitless_send(2) nw(2) s] b0 by (simp add: unblocked_def)
  with assms(2) have u: "unblocked b" by (rule bridge_steps_unblocked)
  from stuck have "up_turn C rnds 1 b = None" "down_turn rnds b = None"
    by (metis bridge_step_def bridge_turn.simps not_Some_eq)+
  with u have "up_result b \<noteq> None" "down_result b \<noteq> None"
    using recv_frame_pending [of "ws b"]
    by (auto simp: unblocked_def never_waits_def up_turn_def down_turn_def split: if_splits rx_end.splits
        prod.splits outcome.splits option.splits ws_incoming.splits)
  with u obtain r q where rq: "up_result b = Some r" "r \<noteq> Pending" "down_result b = Some q" "q \<noteq> Pending"
    by (auto simp: unblocked_def)
  then show "\<exists>r. up_result b = Some r \<and> r \<noteq> Pending" "\<exists>r. down_result b = Some r \<and> r \<noteq> Pending" by simp_all
  from rq show "bridge_result b \<noteq> Pending" by (cases r; cases q) (simp_all add: bridge_result_def)
qed

lemma steps_of_turns:
  "fold (\<lambda>t ob. Option.bind ob (bridge_turn C rnds t)) ts (Some b0) = Some b
    \<Longrightarrow> (bridge_step C rnds ^^ length ts) b0 b"
proof (induction ts arbitrary: b rule: rev_induct)
  case (snoc t ts)
  then obtain b1 where b1: "fold (\<lambda>t ob. Option.bind ob (bridge_turn C rnds t)) ts (Some b0) = Some b1"
    "bridge_turn C rnds t b1 = Some b" by (auto simp: bind_eq_Some_conv)
  from b1(2) have "bridge_step C rnds b1 b" unfolding bridge_step_def by blast
  with snoc.IH [OF b1(1)] show ?case by auto
qed simp

theorem bridge_terminates_witness:
  "\<exists>b. (bridge_step (ctr_api demo_block) (\<lambda>_. None) ^^ 7) demo_bridge b
    \<and> 7 \<le> length (rx demo_client) + length (rx demo_ws) + 2 \<and> bridge_result b \<noteq> Pending"
proof -
  let ?C = "ctr_api demo_block" and ?r = "\<lambda>_. None"
  let ?ob = "fold (\<lambda>t ob. Option.bind ob (bridge_turn ?C ?r t)) demo_turns (Some demo_bridge)"
  have "case ?ob of None \<Rightarrow> False
    | Some b \<Rightarrow> \<not> Option.is_none (up_result b) \<and> \<not> Option.is_none (down_result b)" by code_simp
  then obtain b where ob: "?ob = Some b" and ends: "up_result b \<noteq> None" "down_result b \<noteq> None"
    by (auto simp: Option.is_none_def split: option.splits)
  have len: "length demo_turns = 7" by (simp add: demo_turns_def)
  have steps: "(bridge_step ?C ?r ^^ 7) demo_bridge b"
    using steps_of_turns [OF ob] unfolding len .
  have "\<forall>b'. \<not> bridge_step ?C ?r b b'"
  proof (intro allI notI)
    fix b' assume "bridge_step ?C ?r b b'"
    then obtain t where "bridge_turn ?C ?r t b = Some b'" by (auto simp: bridge_step_def)
    with ends show False by (cases t) (simp_all add: up_turn_def down_turn_def)
  qed
  moreover have "never_waits demo_client" "never_waits demo_ws"
    by (simp_all add: never_waits_def demo_client_def demo_ws_def open_stream_def)
  ultimately show ?thesis using bridge_terminates [OF demo_start(1) steps] steps by blast
qed

section \<open>Pings\<close>

text \<open>What no turn changes, and that a held lock means a blocked loop.\<close>

definition kept :: "stream \<Rightarrow> stream \<Rightarrow> 'c bridge \<Rightarrow> bool" where
  "kept c w b \<longleftrightarrow> rx_end (client b) = rx_end c \<and> on_shutdown (ws b) = on_shutdown w
     \<and> (writer_locked b \<longrightarrow> up_result b = Some Pending \<or> down_result b = Some Pending)
     \<and> (down_result b = None \<longrightarrow> tx_shut (client b) = tx_shut c)"

lemma send_parts_keeps: "on_shutdown (snd (send_parts rnds k ps s)) = on_shutdown s"
proof (induction ps arbitrary: k s)
  case (Cons p ps)
  obtain r s1 where r: "ws_send (rnds k) p s = (r, s1)" by (cases "ws_send (rnds k) p s")
  have "on_shutdown s1 = on_shutdown s"
    using send_raw_keeps [of "build_frame (rnds k) p" s] r by (simp add: ws_send_def)
  with Cons.IH [of "Suc k" s1] r show ?case by (cases r) (auto simp: io_bind_def)
qed simp

lemma kept_up_turn:
  assumes "kept c w b" "up_turn C rnds n b = Some b'"
  shows "kept c w b'"
proof -
  have run: "up_result b = None" using assms(2) by (auto simp: up_turn_def split: if_splits)
  consider (chunk) ch where "b' = up_chunk C rnds ch b" | (finish) "b' = up_finish b"
    | (err) e where "b' = b\<lparr>up_result := Some (Err (ClientIo e))\<rparr>"
    using assms(2) by (auto simp: up_turn_def split: if_splits rx_end.splits)
  then show ?thesis
  proof cases
    case chunk
    with assms(1) run show ?thesis
      by (auto simp: kept_def up_chunk_def up_read_def case_prod_beta send_parts_keeps loop_end_pending)
  next
    case finish
    obtain r s where s: "ws_close (ws b) = (r, s)" by (cases "ws_close (ws b)")
    then have "s = (ws b)\<lparr>tx_shut := True\<rparr>" using ws_close_state [of "ws b"] by simp
    with assms(1) s show ?thesis unfolding finish
      by (cases r) (auto simp: kept_def up_finish_def)
  next
    case err
    with assms(1) run show ?thesis by (auto simp: kept_def)
  qed
qed

lemma kept_down_turn:
  assumes "kept c w b" "down_turn rnds b = Some b'"
  shows "kept c w b'"
proof -
  obtain r v where r: "recv_frame (ws b) = (r, v)" by (cases "recv_frame (ws b)")
  note k = recv_frame_keeps [OF r]
  have run: "down_result b = None" using assms(2) by (auto simp: down_turn_def split: if_splits)
  have c: "rx_end (client b') = rx_end (client b)" "down_result b' = None \<Longrightarrow> tx_shut (client b') = tx_shut (client b)"
    using assms(2)
    by (auto simp: down_turn_def write_all_def down_finish_not_None
        split: if_splits outcome.splits option.splits ws_incoming.splits prod.splits)
  show ?thesis
  proof (cases "\<exists>p. r = Ok (Some (InPing p))")
    case True
    then obtain p where p: "r = Ok (Some (InPing p))" by blast
    from assms(2) r [unfolded p] show ?thesis
    proof (cases rule: down_turn_ping)
      case blocked
      with assms(1) k show ?thesis by (simp add: kept_def)
    next
      case (pong q w')
      have "on_shutdown w' = on_shutdown v"
        using send_raw_keeps [of _ v] pong(2) by (simp add: send_control_frame_def) (metis snd_conv)
      with assms(1) k pong run show ?thesis by (auto simp: kept_def loop_end_pending)
    qed
  next
    case False
    with down_turn_ws [OF assms(2) r] down_turn_up_side [OF assms(2)] c assms(1) k run show ?thesis
      by (auto simp: kept_def)
  qed
qed

lemma run_bridge_kept:
  assumes "bridge_start rnds c w init_data sp = Ok b0"
  shows "kept c w (run_bridge C rnds sched b0)"
proof -
  obtain u w' where s: "ws_send (rnds 0) init_data w = (Ok u, w')"
    using assms by (auto simp: bridge_start_def split: prod.splits outcome.splits)
  have "on_shutdown w' = on_shutdown w"
    using send_raw_keeps [of "build_frame (rnds 0) init_data" w] s by (simp add: ws_send_def)
  with assms s have "kept c w b0" by (auto simp: bridge_start_def kept_def)
  moreover have "kept c w b2" if "kept c w b1" "bridge_turn C rnds t b1 = Some b2" for t b1 b2
    using that kept_up_turn [of c w b1 C rnds] kept_down_turn [of c w b1 rnds b2] by (cases t) auto
  ultimately show ?thesis by (rule run_bridge_inv [rotated])
qed

lemma recv_frame_ping_frame:
  assumes "rx s = server_bytes (0x89, p) @ rest" "wf_server_frame (0x89, p)"
  shows "recv_frame s = (Ok (Some (InPing p)), s\<lparr>rx := rest\<rparr>)"
proof -
  have "read_frame s = (Ok (Some (server_view (0x89, p))), s\<lparr>rx := rest\<rparr>)"
    using assms by (intro read_server_frame) simp_all
  then show ?thesis by (simp add: recv_frame_step frame_of_opcode_def)
qed

lemma run_bridge_ended:
  assumes "up_result b \<noteq> None" "down_result b \<noteq> None"
  shows "run_bridge C rnds sched b = b"
proof -
  have "bridge_turn C rnds t b = None" for t
    using assms by (cases t) (simp_all add: up_turn_def down_turn_def)
  then show ?thesis unfolding run_bridge_def by (induction sched) simp_all
qed

lemma run_bridge_Cons: "run_bridge C rnds (t # ts) b
    = run_bridge C rnds ts (case bridge_turn C rnds t b of None \<Rightarrow> b | Some b' \<Rightarrow> b')"
  by (simp add: run_bridge_def)




definition stalled_ws :: stream where
  "stalled_ws = demo_ws\<lparr>tx_room := Some 9, tx_end := TxWaits\<rparr>"


section \<open>Plain TCP, continued\<close>

lemma bridge_tcp_run:
  assumes "connect_host net addr port = Inr remote" "writable remote"
    and "copy_bidirectional net c (remote\<lparr>tx := tx remote @ prelude\<rparr>) = (Ok u, c2, r2)"
    and "shuts_down c2" "shuts_down r2"
  shows "bridge_tcp_tcp_with_prelude net c addr port prelude
    = (Ok (), c2\<lparr>tx_shut := True\<rparr>, Some (r2\<lparr>tx_shut := True\<rparr>))"
proof -
  have "(if prelude \<noteq> [] then write_all prelude remote else (Ok (), remote)) = (Ok (), remote\<lparr>tx := tx remote @ prelude\<rparr>)"
    using assms(2) by simp
  with assms show ?thesis by (simp add: bridge_tcp_tcp_with_prelude_def shutdown_ok)
qed

end
