(* ===== verification/Backoff.thy ===== *)
theory Backoff
  imports Prelude "HOL-Library.Multiset"
begin

text \<open>
  The WebSocket route gate (\<open>modules/routing/backoff.rs\<close>): per data centre and media flag,
  whether a connection attempt may start. Instants and durations are milliseconds since an
  arbitrary origin. The global table behind its mutex is the state argument of the
  operations; each operation holds the lock throughout, so operations of concurrent clients
  interleave as whole steps.
\<close>

type_synonym ws_key = "u8 \<times> bool"

definition WS_FAILURE_COOLDOWN :: nat where
  "WS_FAILURE_COOLDOWN = 60000"

definition WS_ATTEMPT_WINDOW :: nat where
  "WS_ATTEMPT_WINDOW = 15000"

datatype ws_state = ProbingUntil nat | CooldownUntil nat | StateDisabled404

datatype ws_decision = ProbeNow | ProbeInFlight | Cooldown | Disabled404

record ws_backoff =
  states :: "ws_key \<rightharpoonup> ws_state"

definition backoff_default :: ws_backoff where
  "backoff_default = \<lparr>states = Map.empty\<rparr>"

fun keep_state :: "nat \<Rightarrow> ws_state \<Rightarrow> bool" where
  "keep_state now (ProbingUntil until) \<longleftrightarrow> until > now"
| "keep_state now (CooldownUntil until) \<longleftrightarrow> until > now"
| "keep_state now StateDisabled404 \<longleftrightarrow> True"

definition retain :: "('v \<Rightarrow> bool) \<Rightarrow> ('k \<rightharpoonup> 'v) \<Rightarrow> ('k \<rightharpoonup> 'v)" where
  "retain p m = (\<lambda>k. case m k of None \<Rightarrow> None | Some v \<Rightarrow> if p v then Some v else None)"

definition begin_probe :: "ws_key \<Rightarrow> nat \<Rightarrow> ws_backoff \<Rightarrow> ws_decision \<times> ws_backoff" where
  "begin_probe key now b =
     (let b' = b\<lparr>states := retain (keep_state now) (states b)\<rparr> in
      case states b' key of
        Some (ProbingUntil _) \<Rightarrow> (ProbeInFlight, b')
      | Some (CooldownUntil _) \<Rightarrow> (Cooldown, b')
      | Some StateDisabled404 \<Rightarrow> (Disabled404, b')
      | None \<Rightarrow> (ProbeNow, b'\<lparr>states := (states b')(key \<mapsto> ProbingUntil (now + WS_ATTEMPT_WINDOW))\<rparr>))"

definition record_failure :: "ws_key \<Rightarrow> nat \<Rightarrow> ws_backoff \<Rightarrow> ws_backoff" where
  "record_failure key now b =
     b\<lparr>states := (states b)(key \<mapsto> CooldownUntil (now + WS_FAILURE_COOLDOWN))\<rparr>"

definition disable_404 :: "ws_key \<Rightarrow> ws_backoff \<Rightarrow> ws_backoff" where
  "disable_404 key b = b\<lparr>states := (states b)(key \<mapsto> StateDisabled404)\<rparr>"

definition clear_probe :: "ws_key \<Rightarrow> ws_backoff \<Rightarrow> ws_backoff" where
  "clear_probe key b = b\<lparr>states := (states b)(key := None)\<rparr>"

section \<open>The contract of the gate\<close>

text \<open>
  What the routing code relies on. \<open>decide\<close> says how an attempt on a key at a time is
  answered; starting an attempt on one key changes the answers on that key only, and only
  where the attempt was the first one of a window.
\<close>

locale probe_gate =
  fixes start :: "'k \<Rightarrow> nat \<Rightarrow> 's \<Rightarrow> ws_decision \<times> 's"
    and failed :: "'k \<Rightarrow> nat \<Rightarrow> 's \<Rightarrow> 's" and disable :: "'k \<Rightarrow> 's \<Rightarrow> 's" and reset :: "'k \<Rightarrow> 's \<Rightarrow> 's"
    and cooldown :: nat and window :: nat
  assumes start_failed:
      "fst (start k t' (failed k t s)) = (if t' < t + cooldown then Cooldown else ProbeNow)"
    and start_disabled: "fst (start k t (disable k s)) = Disabled404"
    and start_reset: "fst (start k t (reset k s)) = ProbeNow"
    and start_other:
      "k' \<noteq> k \<Longrightarrow> fst (start k t (failed k' t' s)) = fst (start k t s)"
      "k' \<noteq> k \<Longrightarrow> fst (start k t (disable k' s)) = fst (start k t s)"
      "k' \<noteq> k \<Longrightarrow> fst (start k t (reset k' s)) = fst (start k t s)"
    and start_start: "t \<le> t' \<Longrightarrow> fst (start k t' (snd (start k' t s))) =
      (if k' = k \<and> fst (start k t s) = ProbeNow
       then (if t' < t + window then ProbeInFlight else ProbeNow) else fst (start k t' s))"
begin

definition starts :: "('k \<times> nat) list \<Rightarrow> 's \<Rightarrow> 's" where
  "starts as s = fold (\<lambda>a s. snd (start (fst a) (snd a) s)) as s"

lemma starts_snoc: "starts (as @ [a]) s = snd (start (fst a) (snd a) (starts as s))"
  by (simp add: starts_def)

text \<open>Attempts of other clients, on any key, never shorten or lift a block.\<close>

lemma blocked_until:
  assumes "\<And>u. u \<le> t \<Longrightarrow> fst (start k u s) = d" "d \<noteq> ProbeNow" "\<forall>a \<in> set as. snd a \<le> t"
    and "sorted (map snd as)" "\<forall>a \<in> set as. snd a \<le> u" "u \<le> t"
  shows "fst (start k u (starts as s)) = d"
  using assms(3-6)
proof (induction as arbitrary: u rule: rev_induct)
  case Nil
  then show ?case using assms(1) by (simp add: starts_def)
next
  case (snoc a as)
  have IH: "fst (start k v (starts as s)) = d" if "snd a \<le> v" "v \<le> t" for v
    using snoc.prems that by (intro snoc.IH) (auto simp: sorted_append)
  have "fst (start k (snd a) (starts as s)) = d" using IH snoc.prems by simp
  then show ?case
    using snoc.prems assms(2) IH by (simp add: starts_snoc start_start)
qed

lemma cooldown_holds:
  assumes "sorted (map snd as)" "\<forall>a \<in> set as. snd a \<le> t'" "t' < t + cooldown"
  shows "fst (start k t' (starts as (failed k t s))) = Cooldown"
  using assms by (intro blocked_until [where t = t']) (auto simp: start_failed)

lemma disabled_holds:
  assumes "sorted (map snd as)" "\<forall>a \<in> set as. snd a \<le> t"
  shows "fst (start k t (starts as (disable k s))) = Disabled404"
  using assms by (intro blocked_until [where t = t]) (auto simp: start_disabled)

end

lemma retain_simps [simp]:
  "retain p m k = None \<longleftrightarrow> (\<forall>v. m k = Some v \<longrightarrow> \<not> p v)"
  "retain p m k = Some v \<longleftrightarrow> m k = Some v \<and> p v"
  by (auto simp: retain_def split: option.splits)

lemma keep_state_mono: "t \<le> t' \<Longrightarrow> keep_state t' st \<Longrightarrow> keep_state t st"
  by (cases st) auto

fun decision_of :: "ws_state \<Rightarrow> ws_decision" where
  "decision_of (ProbingUntil u) = ProbeInFlight"
| "decision_of (CooldownUntil u) = Cooldown"
| "decision_of StateDisabled404 = Disabled404"

lemma begin_probe_decision:
  "fst (begin_probe k t b) =
     (case states b k of None \<Rightarrow> ProbeNow
      | Some st \<Rightarrow> if keep_state t st then decision_of st else ProbeNow)"
  by (auto simp: begin_probe_def Let_def retain_def split: option.split ws_state.split)

lemma begin_probe_states:
  "states (snd (begin_probe k' t b)) k =
     (if k' = k \<and> fst (begin_probe k t b) = ProbeNow then Some (ProbingUntil (t + WS_ATTEMPT_WINDOW))
      else retain (keep_state t) (states b) k)"
  by (auto simp: begin_probe_def Let_def retain_def split: option.split ws_state.split)

interpretation gate: probe_gate begin_probe record_failure disable_404 clear_probe
  WS_FAILURE_COOLDOWN WS_ATTEMPT_WINDOW
proof
  fix t t' :: nat and k k' :: ws_key and s :: ws_backoff
  assume t: "t \<le> t'"
  show "fst (begin_probe k t' (snd (begin_probe k' t s))) =
      (if k' = k \<and> fst (begin_probe k t s) = ProbeNow
       then (if t' < t + WS_ATTEMPT_WINDOW then ProbeInFlight else ProbeNow) else fst (begin_probe k t' s))"
  proof (cases "k' = k \<and> fst (begin_probe k t s) = ProbeNow")
    case True
    then show ?thesis
      by (simp add: begin_probe_decision [of k t'] begin_probe_states)
  next
    case False
    then have "states (snd (begin_probe k' t s)) k = retain (keep_state t) (states s) k"
      by (auto simp: begin_probe_states)
    then show ?thesis
      using False t keep_state_mono [OF t] by (auto simp: begin_probe_decision retain_def split: option.splits)
  qed
qed (auto simp: begin_probe_decision record_failure_def disable_404_def clear_probe_def)

section \<open>The gate as a function of its history\<close>

text \<open>
  A gate that starts empty, and what has been done to it, newest first. \<open>answer k h now\<close> reads the
  answer to an attempt off the history alone: the newest report on the route decides, and an
  attempt counts only where it was the first of its window. Reports carry the time the attempt
  arrived at; only attempts are in the order of their times.
\<close>

datatype gate_event = Asked ws_key nat | Failed ws_key nat | Gone ws_key | Cleared ws_key

fun answer :: "ws_key \<Rightarrow> gate_event list \<Rightarrow> nat \<Rightarrow> ws_decision" where
  "answer k [] now = ProbeNow"
| "answer k (Asked k' t # h) now =
     (if k' = k \<and> answer k h t = ProbeNow
      then (if now < t + WS_ATTEMPT_WINDOW then ProbeInFlight else ProbeNow) else answer k h now)"
| "answer k (Failed k' t # h) now =
     (if k' = k then (if now < t + WS_FAILURE_COOLDOWN then Cooldown else ProbeNow) else answer k h now)"
| "answer k (Gone k' # h) now = (if k' = k then Disabled404 else answer k h now)"
| "answer k (Cleared k' # h) now = (if k' = k then ProbeNow else answer k h now)"

fun asked_by :: "nat \<Rightarrow> gate_event list \<Rightarrow> bool" where
  "asked_by now [] \<longleftrightarrow> True"
| "asked_by now (Asked k t # h) \<longleftrightarrow> t \<le> now \<and> asked_by t h"
| "asked_by now (_ # h) \<longleftrightarrow> asked_by now h"

lemma asked_by_mono: "asked_by t h \<Longrightarrow> t \<le> now \<Longrightarrow> asked_by now h"
  by (induction now h rule: asked_by.induct) auto

locale ws_gate = probe_gate start failed disable reset WS_FAILURE_COOLDOWN WS_ATTEMPT_WINDOW
  for start :: "ws_key \<Rightarrow> nat \<Rightarrow> 's \<Rightarrow> ws_decision \<times> 's" and failed :: "ws_key \<Rightarrow> nat \<Rightarrow> 's \<Rightarrow> 's"
    and disable :: "ws_key \<Rightarrow> 's \<Rightarrow> 's" and reset :: "ws_key \<Rightarrow> 's \<Rightarrow> 's" +
  fixes fresh :: 's
  assumes start_fresh: "fst (start k t fresh) = ProbeNow"
begin

fun perform :: "gate_event \<Rightarrow> 's \<Rightarrow> 's" where
  "perform (Asked k t) s = snd (start k t s)"
| "perform (Failed k t) s = failed k t s"
| "perform (Gone k) s = disable k s"
| "perform (Cleared k) s = reset k s"

definition replay :: "gate_event list \<Rightarrow> 's" where
  "replay h = foldr perform h fresh"

lemma replay_simps [simp]: "replay [] = fresh" "replay (e # h) = perform e (replay h)"
  by (simp_all add: replay_def)

lemma start_replay: "asked_by now h \<Longrightarrow> fst (start k now (replay h)) = answer k h now"
proof (induction h arbitrary: now)
  case (Cons e h)
  show ?case
  proof (cases e)
    case (Asked k' t)
    with Cons.prems have "t \<le> now" "asked_by t h" "asked_by now h" by (auto intro: asked_by_mono)
    then show ?thesis
      using Cons.IH [of t] Cons.IH [of now] Asked by (simp add: start_start)
  next
    case (Failed k' t)
    with Cons show ?thesis by (cases "k' = k") (auto simp: start_failed start_other)
  next
    case (Gone k')
    with Cons show ?thesis by (cases "k' = k") (auto simp: start_disabled start_other)
  next
    case (Cleared k')
    with Cons show ?thesis by (cases "k' = k") (auto simp: start_reset start_other)
  qed
qed (simp add: start_fresh)

text \<open>Of the attempts of one window, the first one alone is told to probe.\<close>

lemma window_once:
  assumes "asked_by t h" "fst (start k t (replay h)) = ProbeNow" "t \<le> now" "now < t + WS_ATTEMPT_WINDOW"
  shows "fst (start k now (replay (Asked k t # h))) = ProbeInFlight"
  using assms start_replay [of now "Asked k t # h" k] start_replay [OF assms(1), of k] by simp

end

interpretation table: ws_gate begin_probe record_failure disable_404 clear_probe backoff_default
  by unfold_locales (simp add: begin_probe_decision backoff_default_def)

section \<open>Concurrent clients\<close>

text \<open>
  Any number of clients that share the gate, as the routing code uses it: a client that is
  let through keeps the time it arrived at (\<open>now\<close> of \<open>route_client\<close>) while it connects, and
  reports success, failure or a 404 answer when that ends, or panics before. \<open>failures\<close> and \<open>gone\<close> record
  what has been reported.
\<close>

record gate_sys =
  gate_of :: ws_backoff
  clock :: nat
  inflight :: "(ws_key \<times> nat) multiset"
  failures :: "(ws_key \<times> nat) set"
  gone :: "ws_key set"

definition gate_init :: gate_sys where
  "gate_init = \<lparr>gate_of = backoff_default, clock = 0, inflight = {#}, failures = {}, gone = {}\<rparr>"

definition admitted :: "ws_decision \<Rightarrow> bool" where
  "admitted d \<longleftrightarrow> d = ProbeNow \<or> d = ProbeInFlight"

inductive gate_step :: "gate_sys \<Rightarrow> gate_sys \<Rightarrow> bool" where
  tick: "gate_step s (s\<lparr>clock := clock s + d\<rparr>)"
| arrive: "begin_probe k (clock s) (gate_of s) = (d, g) \<Longrightarrow>
    gate_step s (s\<lparr>gate_of := g, inflight := (if admitted d then add_mset (k, clock s) (inflight s) else inflight s)\<rparr>)"
| succeed: "(k, t) \<in># inflight s \<Longrightarrow>
    gate_step s (s\<lparr>gate_of := clear_probe k (gate_of s), inflight := inflight s - {#(k, t)#}\<rparr>)"
| fail: "(k, t) \<in># inflight s \<Longrightarrow>
    gate_step s (s\<lparr>gate_of := record_failure k t (gate_of s), inflight := inflight s - {#(k, t)#},
      failures := insert (k, t) (failures s)\<rparr>)"
| all_404: "(k, t) \<in># inflight s \<Longrightarrow>
    gate_step s (s\<lparr>gate_of := disable_404 k (gate_of s), inflight := inflight s - {#(k, t)#},
      gone := insert k (gone s)\<rparr>)"
| vanish: "(k, t) \<in># inflight s \<Longrightarrow> gate_step s (s\<lparr>inflight := inflight s - {#(k, t)#}\<rparr>)"

inductive gate_reachable :: "gate_sys \<Rightarrow> bool" where
  init: "gate_reachable gate_init"
| step: "gate_reachable s \<Longrightarrow> gate_step s s' \<Longrightarrow> gate_reachable s'"

text \<open>Every entry of the table is explained by something that happened.\<close>

fun explained :: "gate_sys \<Rightarrow> ws_key \<Rightarrow> ws_state \<Rightarrow> bool" where
  "explained s k (ProbingUntil u) \<longleftrightarrow> u \<le> clock s + WS_ATTEMPT_WINDOW"
| "explained s k (CooldownUntil u) \<longleftrightarrow> (\<exists>t \<le> clock s. u = t + WS_FAILURE_COOLDOWN \<and> (k, t) \<in> failures s)"
| "explained s k StateDisabled404 \<longleftrightarrow> k \<in> gone s"

definition gate_inv :: "gate_sys \<Rightarrow> bool" where
  "gate_inv s \<longleftrightarrow> (\<forall>k st. states (gate_of s) k = Some st \<longrightarrow> explained s k st)
     \<and> (\<forall>a \<in># inflight s. snd a \<le> clock s)"

lemma gate_invD:
  "gate_inv s \<Longrightarrow> states (gate_of s) k = Some st \<Longrightarrow> explained s k st"
  "gate_inv s \<Longrightarrow> (k, t) \<in># inflight s \<Longrightarrow> t \<le> clock s"
  unfolding gate_inv_def by (blast, force)

lemma gate_invI:
  assumes "\<And>k st. states (gate_of s) k = Some st \<Longrightarrow> explained s k st"
    and "\<And>a. a \<in># inflight s \<Longrightarrow> snd a \<le> clock s"
  shows "gate_inv s"
  unfolding gate_inv_def using assms by blast

lemma explained_mono:
  "explained s k st \<Longrightarrow> clock s \<le> clock s' \<Longrightarrow> failures s \<subseteq> failures s' \<Longrightarrow> gone s \<subseteq> gone s' \<Longrightarrow>
   explained s' k st"
  by (cases st) (auto intro: order_trans)

lemma gate_step_mono:
  "gate_step s s' \<Longrightarrow> clock s \<le> clock s' \<and> failures s \<subseteq> failures s' \<and> gone s \<subseteq> gone s'"
  by (induction rule: gate_step.induct) auto

text \<open>What a step does to the table: an old entry stays, or the entry is new and explained.\<close>

lemma gate_step_entry:
  assumes "gate_step s s'" "gate_inv s" "states (gate_of s') k = Some st"
  shows "states (gate_of s) k = Some st \<or> explained s' k st"
  using assms
proof (induction rule: gate_step.induct)
  case (arrive k' s d g)
  then have "g = snd (begin_probe k' (clock s) (gate_of s))" by simp
  with arrive.prems show ?case by (auto simp: begin_probe_states split: if_splits)
next
  case (fail k' t s)
  then show ?case
    using gate_invD(2) [OF fail.prems(1) fail.hyps] by (auto simp: record_failure_def split: if_splits)
qed (auto simp: clear_probe_def disable_404_def split: if_splits)

lemma gate_inv_step:
  assumes "gate_inv s" "gate_step s s'"
  shows "gate_inv s'"
proof (rule gate_invI)
  fix k st assume "states (gate_of s') k = Some st"
  from gate_step_entry [OF assms(2,1) this] show "explained s' k st"
    using gate_invD(1) [OF assms(1)] gate_step_mono [OF assms(2)] explained_mono by blast
next
  fix a assume "a \<in># inflight s'"
  with assms(2) have "a \<in># inflight s \<or> snd a = clock s"
    by (induction rule: gate_step.induct) (auto dest: in_diffD split: if_splits)
  then show "snd a \<le> clock s'"
    using assms(1) gate_step_mono [OF assms(2)] by (auto simp: gate_inv_def)
qed

lemma gate_reachable_inv: "gate_reachable s \<Longrightarrow> gate_inv s"
proof (induction rule: gate_reachable.induct)
  case init
  show ?case by (simp add: gate_inv_def gate_init_def backoff_default_def)
qed (rule gate_inv_step)

section \<open>Properties\<close>

text \<open>
  Cooldown of a failed route: after a failure of an attempt that arrived at \<open>t\<close>, every
  attempt on the route before \<open>t\<close> plus 60 seconds is refused, whatever attempts on this or
  other routes arrived in between, and the first attempt from then on is let through.
\<close>

theorem failure_blocks_for_cooldown:
  assumes "sorted (map snd as)" "\<forall>a \<in> set as. snd a \<le> t'" "t' < t + 60000"
  shows "fst (begin_probe k t' (gate.starts as (record_failure k t b))) = Cooldown
    \<and> fst (begin_probe k (t + 60000) (record_failure k t b)) = ProbeNow"
  using gate.cooldown_holds [of as t' t k b] gate.start_failed [of k "t + 60000" t b] assms
  by (simp add: WS_FAILURE_COOLDOWN_def)

theorem failure_blocks_for_cooldown_witness:
  "fst (begin_probe (2, False) 59999 (gate.starts [((2, False), 10), ((4, True), 20)]
      (record_failure (2, False) 0 backoff_default))) = Cooldown"
  using failure_blocks_for_cooldown [of "[((2, False), 10), ((4, True), 20)]" 59999 0 "(2, False)" backoff_default]
  by simp

text \<open>
  C11. The table of the gate implements the history: whatever clients have asked and reported
  since the start, in any order of the reports, the answer to an attempt on a route is the one
  that the newest report on this route and the attempts after it determine: after a success the
  route is open, after 404 answers it is disabled, after a failure it is closed for 60 seconds
  from the arrival of the failed attempt, and the attempts that come within 15 seconds of one
  that was told to probe join it. Events on other routes, and the removal of expired entries,
  never matter.
\<close>

theorem gate_implements_history:
  assumes "asked_by now h"
  shows "fst (begin_probe k now (table.replay h)) = answer k h now"
  using assms by (rule table.start_replay)

theorem gate_implements_history_witness:
  "map (\<lambda>now. fst (begin_probe (2, False) now (table.replay [Cleared (4, True), Asked (2, False) 70000,
       Failed (2, False) 1000, Asked (4, True) 2000, Asked (2, False) 1000]))) [70001, 85000]
     = [ProbeInFlight, ProbeNow]"
proof -
  let ?h = "[Cleared (4, True), Asked (2, False) 70000, Failed (2, False) 1000, Asked (4, True) 2000, Asked (2, False) 1000]"
  have "asked_by 70001 ?h" "asked_by 85000 ?h" by simp_all
  from this [THEN gate_implements_history, of "(2, False)"] show ?thesis
    by (simp add: WS_ATTEMPT_WINDOW_def WS_FAILURE_COOLDOWN_def)
qed

lemma refusal_cause:
  assumes "gate_reachable s"
  shows "(fst (begin_probe k now (gate_of s)) = Cooldown \<longrightarrow> (\<exists>t. (k, t) \<in> failures s \<and> now < t + 60000))
    \<and> (fst (begin_probe k now (gate_of s)) = Disabled404 \<longrightarrow> k \<in> gone s)"
proof (cases "states (gate_of s) k")
  case (Some st)
  with gate_invD(1) [OF gate_reachable_inv [OF assms]] have "explained s k st" by blast
  with Some show ?thesis
    by (cases st) (auto simp: begin_probe_decision WS_FAILURE_COOLDOWN_def)
qed (simp add: begin_probe_decision)

text \<open>
  No route is refused without cause, in any interleaving of any number of clients: an
  attempt is only answered with a cooldown when a failure was reported for an attempt on
  this very route that arrived less than 60 seconds ago, and only answered as disabled when
  all its hosts have answered 404 before.
\<close>

theorem refusal_has_cause:
  assumes "gate_reachable s"
  shows "(fst (begin_probe k now (gate_of s)) = Cooldown \<longrightarrow> (\<exists>t. (k, t) \<in> failures s \<and> now < t + 60000))
    \<and> (fst (begin_probe k now (gate_of s)) = Disabled404 \<longrightarrow> k \<in> gone s)"
  using assms by (rule refusal_cause)

lemma route_recovery:
  assumes "gate_reachable s" "k \<notin> gone s" "clock s + 60000 \<le> now"
  shows "fst (begin_probe k now (gate_of s)) = ProbeNow"
proof (cases "states (gate_of s) k")
  case (Some st)
  with gate_invD(1) [OF gate_reachable_inv [OF assms(1)]] have "explained s k st" by blast
  with Some assms(2,3) show ?thesis
    by (cases st) (auto simp: begin_probe_decision WS_FAILURE_COOLDOWN_def WS_ATTEMPT_WINDOW_def)
qed (simp add: begin_probe_decision)

text \<open>
  Every route recovers: 60 seconds after the last activity, an attempt on a route that
  has never been disabled is let through as the first of a new window, whatever the clients
  did before and however their operations interleaved.
\<close>

theorem route_recovers:
  assumes "gate_reachable s" "k \<notin> gone s" "clock s + 60000 \<le> now"
  shows "fst (begin_probe k now (gate_of s)) = ProbeNow"
  using assms by (rule route_recovery)

text \<open>
  A run with two clients of the same route: one gets 404 everywhere and disables it, then the other
  one times out.
\<close>

definition race_disabled :: gate_sys where
  "race_disabled = \<lparr>gate_of = \<lparr>states = [(2, False) \<mapsto> StateDisabled404]\<rparr>, clock = 0, inflight = {#((2, False), 0)#},
     failures = {}, gone = {(2, False)}\<rparr>"

definition race_end :: gate_sys where
  "race_end = \<lparr>gate_of = \<lparr>states = [(2, False) \<mapsto> CooldownUntil 60000]\<rparr>, clock = 60000, inflight = {#},
     failures = {((2, False), 0)}, gone = {(2, False)}\<rparr>"

lemma race_disabled_reachable: "gate_reachable race_disabled"
proof -
  let ?k = "(2, False) :: ws_key"
  let ?p = "\<lparr>states = [?k \<mapsto> ProbingUntil 15000]\<rparr>"
  have b: "begin_probe ?k 0 backoff_default = (ProbeNow, ?p)" "begin_probe ?k 0 ?p = (ProbeInFlight, ?p)"
    by (auto simp: begin_probe_def backoff_default_def retain_def WS_ATTEMPT_WINDOW_def fun_eq_iff Let_def)
  have 1: "gate_reachable (gate_init\<lparr>gate_of := ?p, inflight := {#(?k, 0)#}\<rparr>)"
    using gate_reachable.step [OF gate_reachable.init gate_step.arrive [of ?k gate_init]] b(1)
    by (simp add: gate_init_def admitted_def)
  have 2: "gate_reachable (gate_init\<lparr>gate_of := ?p, inflight := {#(?k, 0), (?k, 0)#}\<rparr>)"
    using gate_reachable.step [OF 1 gate_step.arrive [of ?k]] b(2)
    by (simp add: gate_init_def admitted_def)
  show ?thesis
    using gate_reachable.step [OF 2 gate_step.all_404 [of ?k 0]]
    by (simp add: gate_init_def race_disabled_def disable_404_def)
qed

lemma race_reachable: "gate_reachable race_end"
proof -
  have "gate_reachable (race_disabled\<lparr>gate_of := record_failure (2, False) 0 (gate_of race_disabled), inflight := {#},
      failures := {((2, False), 0)}\<rparr>)"
    using gate_reachable.step [OF race_disabled_reachable gate_step.fail [of "(2, False)" 0]]
    by (simp add: race_disabled_def)
  from gate_reachable.step [OF this gate_step.tick [of _ 60000]] show ?thesis
    by (simp add: race_disabled_def race_end_def record_failure_def WS_FAILURE_COOLDOWN_def)
qed

text \<open>
  C35. Disabling a route after 404 answers is not permanent when clients are concurrent: whenever
  a route is disabled while another client admitted at \<open>t\<close> is still connecting, the failure that this
  client reports replaces the entry, so that the disabled route refuses only until \<open>t\<close> plus
  60 seconds and is open from then on, although it stays one of those whose hosts have all
  answered 404. (The witness is such a run from the empty table.)
\<close>

theorem disabled_route_reopens:
  assumes "gate_reachable s1" "fst (begin_probe k (clock s1) (gate_of s1)) = Disabled404" "(k, t) \<in># inflight s1"
  shows "\<exists>s2. gate_step s1 s2 \<and> gate_reachable s2 \<and> k \<in> gone s2
     \<and> clock s2 = clock s1 \<and> failures s2 = insert (k, t) (failures s1) \<and> inflight s2 = inflight s1 - {#(k, t)#}
     \<and> (\<forall>now < t + 60000. fst (begin_probe k now (gate_of s2)) = Cooldown)
     \<and> (\<forall>now \<ge> t + 60000. fst (begin_probe k now (gate_of s2)) = ProbeNow)"
proof -
  let ?s2 = "s1\<lparr>gate_of := record_failure k t (gate_of s1), inflight := inflight s1 - {#(k, t)#},
    failures := insert (k, t) (failures s1)\<rparr>"
  have "gate_step s1 ?s2" by (rule gate_step.fail [OF assms(3)])
  moreover have "k \<in> gone ?s2" using refusal_cause [OF assms(1)] assms(2) by simp
  ultimately show ?thesis
    using gate_reachable.step [OF assms(1)]
    by (intro exI [of _ ?s2]) (simp add: begin_probe_decision record_failure_def WS_FAILURE_COOLDOWN_def)
qed

theorem disabled_route_reopens_witness:
  "\<exists>s2. gate_reachable race_disabled \<and> fst (begin_probe (2, False) 0 (gate_of race_disabled)) = Disabled404
     \<and> gate_step race_disabled s2 \<and> fst (begin_probe (2, False) 60000 (gate_of s2)) = ProbeNow"
proof -
  have d: "fst (begin_probe (2, False) (clock race_disabled) (gate_of race_disabled)) = Disabled404"
    "((2, False), 0) \<in># inflight race_disabled" "clock race_disabled = 0"
    by (simp_all add: race_disabled_def begin_probe_decision)
  from disabled_route_reopens [OF race_disabled_reachable d(1,2)] obtain s2 where
    "gate_step race_disabled s2" "\<forall>now \<ge> 60000. fst (begin_probe (2, False) now (gate_of s2)) = ProbeNow" by auto
  with race_disabled_reachable d show ?thesis by auto
qed

theorem refusal_has_cause_witness:
  "\<exists>t. ((2, False), t) \<in> failures race_end \<and> 59999 < t + 60000"
proof -
  have "fst (begin_probe (2, False) 59999 (gate_of race_end)) = Cooldown"
    by (simp add: race_end_def begin_probe_decision)
  with refusal_has_cause [OF race_reachable, of "(2, False)" 59999] show ?thesis by blast
qed

theorem route_recovers_witness: "fst (begin_probe (4, True) 120000 (gate_of race_end)) = ProbeNow"
  by (rule route_recovers [OF race_reachable]) (simp_all add: race_end_def)

end
