(* ===== verification/Ipv6_Cache.thy ===== *)
theory Ipv6_Cache
  imports Catalog
begin

text \<open>
  The learned data centres of IPv6 targets (\<open>modules/routing/ipv6_cache.rs\<close>). The global map
  behind its mutex is the state argument. The map is keyed by the address, not by its text.
\<close>

type_synonym ipv6_dc_cache = "u128 \<rightharpoonup> telegram_ip_entry"

definition learned_ipv6_entry :: "string \<Rightarrow> ipv6_dc_cache \<Rightarrow> telegram_ip_entry option" where
  "learned_ipv6_entry host cache = (case ipv6_from_str host of None \<Rightarrow> None | Some ip \<Rightarrow> cache ip)"

definition remember_ipv6_entry :: "string \<Rightarrow> telegram_ip_entry \<Rightarrow> ipv6_dc_cache \<Rightarrow> ipv6_dc_cache" where
  "remember_ipv6_entry host entry cache =
     (case ipv6_from_str host of None \<Rightarrow> cache | Some ip \<Rightarrow> cache(ip \<mapsto> entry))"

text \<open>A memory of facts under keys with several spellings: the last fact told about a key holds.\<close>

locale spelled_cache =
  fixes key :: "'h \<Rightarrow> 'k option" and recall :: "'h \<Rightarrow> 'c \<Rightarrow> 'e option" and learn :: "'h \<Rightarrow> 'e \<Rightarrow> 'c \<Rightarrow> 'c"
    and fresh :: 'c
  assumes recall_fresh: "recall h fresh = None"
    and recall_learn: "recall h (learn g e c) =
      (if key g \<noteq> None \<and> key g = key h then Some e else recall h c)"
begin

definition learn_all :: "('h \<times> 'e) list \<Rightarrow> 'c \<Rightarrow> 'c" where
  "learn_all xs c = fold (\<lambda>x c. learn (fst x) (snd x) c) xs c"

lemma recall_learn_all:
  "recall h (learn_all xs c) =
     (case filter (\<lambda>x. key (fst x) \<noteq> None \<and> key (fst x) = key h) (rev xs) of
        [] \<Rightarrow> recall h c | x # _ \<Rightarrow> Some (snd x))"
proof (induction xs rule: rev_induct)
  case (snoc x xs)
  then show ?case by (auto simp: learn_all_def recall_learn)
qed (simp add: learn_all_def)

lemma recall_was_learned:
  assumes "recall h (learn_all xs fresh) = Some e"
  shows "\<exists>g. (g, e) \<in> set xs \<and> key g = key h \<and> key h \<noteq> None"
proof -
  from assms obtain x ys where x: "filter (\<lambda>x. key (fst x) \<noteq> None \<and> key (fst x) = key h) (rev xs) = x # ys" "e = snd x"
    by (auto simp: recall_learn_all recall_fresh split: list.splits)
  from x(1) have "x \<in> set (filter (\<lambda>x. key (fst x) \<noteq> None \<and> key (fst x) = key h) (rev xs))"
    by (simp only: list.set_intros)
  then have "x \<in> set xs" "key (fst x) = key h" "key h \<noteq> None" unfolding set_filter set_rev by auto metis
  with x(2) show ?thesis by (intro exI [of _ "fst x"]) (simp add: prod.collapse)
qed

end

interpretation dc_cache: spelled_cache ipv6_from_str learned_ipv6_entry remember_ipv6_entry Map.empty
  by unfold_locales (auto simp: learned_ipv6_entry_def remember_ipv6_entry_def split: option.splits)

text \<open>
  Whatever has been remembered, a lookup of a host answers with the entry that was
  remembered last for the same IPv6 address, under any spelling of it, and with nothing
  where none was; hosts that are not IPv6 literals neither change the cache nor hit it.
\<close>

theorem learned_entry_is_last_remembered:
  "learned_ipv6_entry h (dc_cache.learn_all xs Map.empty) =
     (case filter (\<lambda>x. ipv6_from_str (fst x) \<noteq> None \<and> ipv6_from_str (fst x) = ipv6_from_str h) (rev xs) of
        [] \<Rightarrow> None | x # _ \<Rightarrow> Some (snd x))"
  unfolding dc_cache.recall_learn_all dc_cache.recall_fresh ..

end
