(* ===== verification/Config.thy ===== *)
theory Config
  imports Socks Ascii_Text "HOL-Library.Char_ord" "HOL-Library.List_Lexorder" "HOL-Library.Product_Lexorder"
begin

text \<open>
  The configuration (\<open>config.rs\<close>): the routed part with the parsed accounts, and the
  \<open>tg://\<close> links announced at the start. The addresses of the network interfaces come from
  the crate \<open>if_addrs\<close> and are an argument, \<open>None\<close> where listing them fails. Rust compares
  strings bytewise and tuples from the left, which is the order of the imported theories.
\<close>

record cli_config =
  cli_host :: string
  cli_port :: u16
  cli_log_level :: string
  cli_read_timeout_secs :: nat
  cli_connect_timeout_secs :: nat
  cli_config_file :: string
  cli_health_addr :: string
  cli_socks_users :: string

record runtime_config =
  rt_host :: string
  rt_port :: u16
  rt_log_level :: string
  rt_ws_pool_size :: nat
  rt_ws_pool_ttl_secs :: nat
  rt_read_timeout_secs :: nat
  rt_connect_timeout_secs :: nat
  rt_health_addr :: string

record routed_config =
  read_timeout_secs :: nat
  connect_timeout_secs :: nat
  socks_auth :: "socks_auth_config option"

definition routed_config_try_from :: "cli_config \<Rightarrow> string + routed_config" where
  "routed_config_try_from cfg =
     (case parse_socks_auth (cli_socks_users cfg) of
        Inl e \<Rightarrow> Inl e
      | Inr a \<Rightarrow> Inr \<lparr>read_timeout_secs = cli_read_timeout_secs cfg,
          connect_timeout_secs = cli_connect_timeout_secs cfg, socks_auth = a\<rparr>)"

section \<open>Hosts\<close>

definition normalize_host :: "string \<Rightarrow> string" where
  "normalize_host h =
     (case strip_prefix_char CHR ''['' h of
        None \<Rightarrow> h
      | Some rest \<Rightarrow> (case strip_suffix_char CHR '']'' rest of None \<Rightarrow> h | Some inner \<Rightarrow> inner))"

definition is_unspecified_host :: "string \<Rightarrow> bool" where
  "is_unspecified_host h =
     (case ip_from_str (normalize_host h) of None \<Rightarrow> False | Some ip \<Rightarrow> ip_is_unspecified ip)"

definition is_public_ipv6 :: "u128 \<Rightarrow> bool" where
  "is_public_ipv6 ip \<longleftrightarrow> \<not> ipv6_is_loopback ip \<and> \<not> ipv6_is_unspecified ip \<and> \<not> ipv6_is_multicast ip
     \<and> \<not> ipv6_is_unique_local ip \<and> \<not> ipv6_is_unicast_link_local ip"

fun announce_priority :: "ip_addr \<Rightarrow> nat" where
  "announce_priority (V4 v4) = (if \<not> ipv4_is_loopback v4 then 1 else 3)"
| "announce_priority (V6 v6) =
     (if is_public_ipv6 v6 then 0
      else if \<not> ipv6_is_loopback v6 \<and> \<not> ipv6_is_unspecified v6 \<and> \<not> ipv6_is_unicast_link_local v6 then 2
      else if ipv6_is_loopback v6 then 4
      else 255)"

section \<open>Links\<close>

fun rank_ifaces :: "string set \<Rightarrow> ip_addr list \<Rightarrow> (nat \<times> string) list" where
  "rank_ifaces seen [] = []"
| "rank_ifaces seen (ip # ips) =
     (let h = ip_to_string ip in
      if h \<in> seen then rank_ifaces seen ips
      else if announce_priority ip < 255
      then (announce_priority ip, h) # rank_ifaces (insert h seen) ips
      else rank_ifaces (insert h seen) ips)"

definition discover_link_addrs :: "ip_addr list option \<Rightarrow> string list" where
  "discover_link_addrs ifaces =
     (case ifaces of
        None \<Rightarrow> []
      | Some ips \<Rightarrow>
          let addrs = map snd (sort (rank_ifaces {} ips))
          in if addrs = [] then [''127.0.0.1'', ''::1''] else addrs)"

definition link_addrs :: "ip_addr list option \<Rightarrow> string \<Rightarrow> string list" where
  "link_addrs ifaces h =
     (let normalized = normalize_host h in
      if is_unspecified_host normalized
      then (let addrs = rev (remdups (rev (discover_link_addrs ifaces)))
            in if addrs = [] then [normalized] else addrs)
      else [normalized])"

definition telegram_socks_proxy_link :: "string \<Rightarrow> u16 \<Rightarrow> string" where
  "telegram_socks_proxy_link h p =
     (let host = normalize_host h;
          server = (if CHR '':'' \<in> set host \<and> \<not> starts_with_char CHR ''['' host \<and> \<not> ends_with_char CHR '']'' host
                    then ''['' @ host @ '']'' else host)
      in ''tg://socks?server='' @ server @ ''&port='' @ show_nat (unat p))"

definition telegram_socks_proxy_links :: "ip_addr list option \<Rightarrow> string \<Rightarrow> u16 \<Rightarrow> string list" where
  "telegram_socks_proxy_links ifaces h p = map (\<lambda>a. telegram_socks_proxy_link a p) (link_addrs ifaces h)"

section \<open>Characters of printed addresses\<close>

definition addr_char :: "char \<Rightarrow> bool" where
  "addr_char c \<longleftrightarrow> to_digit 16 c \<noteq> None \<or> c = CHR '':'' \<or> c = CHR ''.''"

lemma show_radix_addr: "2 \<le> r \<Longrightarrow> r \<le> 16 \<Longrightarrow> c \<in> set (show_radix r n) \<Longrightarrow> addr_char c"
proof (induction n rule: less_induct)
  case (less n)
  have d: "addr_char (digit_char d)" if "d < 16" for d
    using that by (simp add: addr_char_def)
  show ?case
  proof (cases "n < r")
    case True
    with less.prems d [of n] show ?thesis by (simp add: show_radix.simps [of r n])
  next
    case False
    with less.prems have "c \<in> set (show_radix r (n div r)) \<or> c = digit_char (n mod r)"
      by (auto simp: show_radix.simps [of r n])
    moreover have "n div r < n" "n mod r < 16"
      using False less.prems(1,2) mod_less_divisor [of r n] by (auto simp: div_less_dividend simp del: mod_less_divisor)
    ultimately show ?thesis using less d by blast
  qed
qed

lemma set_join: "set (join sep xs) \<subseteq> set sep \<union> (\<Union>x \<in> set xs. set x)"
  by (induction sep xs rule: join.induct) auto

lemma ipv4_addr_chars: "c \<in> set (ipv4_to_string a) \<Longrightarrow> addr_char c"
  using set_join [of "''.''" "map show_nat (octets a)"] show_radix_addr [of 10 c]
  by (auto simp: ipv4_to_string_def addr_char_def)

lemma fmt_addr_chars: "c \<in> set (fmt_subslice gs) \<Longrightarrow> addr_char c"
  using set_join [of "'':''" "map show_hex gs"] show_radix_addr [of 16 c]
  by (auto simp: fmt_subslice_def addr_char_def)

lemma ipv6_addr_chars: "c \<in> set (ipv6_to_string a) \<Longrightarrow> addr_char c"
proof -
  have l: "list_all addr_char ''::ffff:''" "list_all addr_char ''::''" by code_simp+
  assume "c \<in> set (ipv6_to_string a)"
  then have "c \<in> set ''::ffff:'' \<or> c \<in> set ''::'' \<or> (\<exists>x. c \<in> set (ipv4_to_string x)) \<or> (\<exists>gs. c \<in> set (fmt_subslice gs))"
    unfolding ipv6_to_string_def Let_def case_prod_beta by (simp only: set_append split: if_splits) blast+
  with l fmt_addr_chars ipv4_addr_chars show ?thesis unfolding list_all_iff by blast
qed

lemma addr_char_no_bracket: "addr_char c \<Longrightarrow> c \<noteq> CHR ''['' \<and> c \<noteq> CHR '']''"
  by (auto simp: addr_char_def to_digit_def)

lemma ip_no_bracket: "CHR ''['' \<notin> set (ip_to_string a)" "CHR '']'' \<notin> set (ip_to_string a)"
proof -
  have "addr_char c" if "c \<in> set (ip_to_string a)" for c
    using that ipv4_addr_chars ipv6_addr_chars by (cases a) auto
  then show "CHR ''['' \<notin> set (ip_to_string a)" "CHR '']'' \<notin> set (ip_to_string a)"
    using addr_char_no_bracket by blast+
qed

lemma starts_with_set: "starts_with_char c s \<Longrightarrow> c \<in> set s" "ends_with_char c s \<Longrightarrow> c \<in> set s"
  by (auto simp: starts_with_char_def ends_with_char_def split: list.splits dest: arg_cong [of "rev s" _ set])

lemma normalize_host_id: "CHR ''['' \<notin> set h \<Longrightarrow> normalize_host h = h"
  by (cases h) (auto simp: normalize_host_def strip_prefix_char_def)

lemma normalize_host_bracketed: "normalize_host (''['' @ h @ '']'') = h"
  by (simp add: normalize_host_def strip_prefix_char_def strip_suffix_char_def)

definition server_text :: "ip_addr \<Rightarrow> string" where
  "server_text a = (case a of V4 v \<Rightarrow> ipv4_to_string v | V6 v \<Rightarrow> ''['' @ ipv6_to_string v @ '']'')"

text \<open>
  The announced link of an address is well formed for both families: an IPv6 address
  appears in exactly one pair of brackets, whether or not it was given with brackets, an
  IPv4 address in none, and the port in decimal.
\<close>

theorem proxy_link_of_address:
  "telegram_socks_proxy_link (ip_to_string a) p = ''tg://socks?server='' @ server_text a @ ''&port='' @ show_nat (unat p)
   \<and> telegram_socks_proxy_link (''['' @ ip_to_string a @ '']'') p = telegram_socks_proxy_link (ip_to_string a) p"
proof -
  have "\<not> starts_with_char CHR ''['' (ip_to_string a)" "\<not> ends_with_char CHR '']'' (ip_to_string a)"
    using ip_no_bracket [of a] starts_with_set by blast+
  moreover have "CHR '':'' \<in> set (ip_to_string a) \<longleftrightarrow> (\<exists>v. a = V6 v)"
    by (cases a) simp_all
  ultimately show ?thesis
    using normalize_host_id [OF ip_no_bracket(1), of a] normalize_host_bracketed [of "ip_to_string a"]
    by (cases a) (simp_all add: telegram_socks_proxy_link_def server_text_def)
qed

section \<open>Discovery\<close>

lemma ip_to_string_inject: "ip_to_string a = ip_to_string b \<longleftrightarrow> a = b"
  by (metis ip_from_to_string option.inject)

lemma set_rank_ifaces:
  "set (rank_ifaces seen ips) =
     {(announce_priority ip, ip_to_string ip) | ip. ip \<in> set ips \<and> ip_to_string ip \<notin> seen \<and> announce_priority ip < 255}"
  by (induction seen ips rule: rank_ifaces.induct) (auto simp: Let_def ip_to_string_inject)

lemma distinct_rank_ifaces:
  "distinct (map snd (rank_ifaces seen ips)) \<and> seen \<inter> set (map snd (rank_ifaces seen ips)) = {}"
  by (induction seen ips rule: rank_ifaces.induct) (auto simp: Let_def)

lemma sorted_fst: "sorted (xs :: (nat \<times> string) list) \<Longrightarrow> sorted (map fst xs)"
  by (induction xs) (auto simp: less_eq_prod_def)

text \<open>
  With a wildcard listening address, the links announce exactly the usable interface
  addresses, each once, ordered by priority (public IPv6 first, then IPv4, then other IPv6,
  then the loopbacks), provided there is one; link-local, unspecified and the like are left out.
\<close>

theorem discover_link_addrs_sound:
  assumes "ip \<in> set ips" "announce_priority ip < 255" "addrs = discover_link_addrs (Some ips)"
  shows "distinct addrs \<and> set addrs = ip_to_string ` {ip \<in> set ips. announce_priority ip < 255}
    \<and> sorted (map (\<lambda>h. announce_priority (the (ip_from_str h))) addrs)"
proof -
  let ?r = "sort (rank_ifaces {} ips)"
  have set_r: "set ?r = {(announce_priority ip, ip_to_string ip) | ip. ip \<in> set ips \<and> announce_priority ip < 255}"
    using set_rank_ifaces [of "{}" ips] by simp
  have "(announce_priority ip, ip_to_string ip) \<in> set ?r" unfolding set_r using assms(1,2) by blast
  then have "?r \<noteq> []" by (auto simp del: set_sort)
  then have a: "addrs = map snd ?r" using assms(3) by (simp add: discover_link_addrs_def)
  have "distinct (map snd ?r)"
    using distinct_rank_ifaces [of "{}" ips] by (simp add: distinct_map)
  moreover have m: "map (\<lambda>h. announce_priority (the (ip_from_str h))) addrs = map fst ?r"
  proof -
    have "announce_priority (the (ip_from_str (snd x))) = fst x" if "x \<in> set ?r" for x
    proof -
      from that obtain i where "x = (announce_priority i, ip_to_string i)" unfolding set_r by blast
      then show ?thesis by (simp add: ip_from_to_string)
    qed
    then show ?thesis unfolding a by simp
  qed
  moreover have "sorted (map fst ?r)" by (rule sorted_fst) (rule sorted_sort)
  moreover have "set addrs = ip_to_string ` {ip \<in> set ips. announce_priority ip < 255}"
    unfolding a set_map set_r by (auto simp: image_iff)
  ultimately show ?thesis unfolding m unfolding a by blast
qed

theorem discover_link_addrs_sound_witness:
  "set (discover_link_addrs (Some [V4 0x0A000001, V6 1])) = {''10.0.0.1'', ''::1''}"
proof -
  have s: "ip_to_string (V4 0x0A000001) = ''10.0.0.1''" "ip_to_string (V6 1) = ''::1''"
    "announce_priority (V4 0x0A000001) = 1" "announce_priority (V6 1) = 4" by code_simp+
  then have "{ip \<in> set [V4 0x0A000001, V6 1]. announce_priority ip < 255} = {V4 0x0A000001, V6 1}" by auto
  with discover_link_addrs_sound [of "V6 1" "[V4 0x0A000001, V6 1]", OF _ _ refl] s show ?thesis by simp
qed

end
