(* ===== verification/Routing.thy ===== *)
theory Routing
  imports Catalog Config Ws_Handshake Relay Backoff Ipv6_Cache
begin

text \<open>
  Routing of one client (\<open>modules/routing.rs\<close>): from the SOCKS handshake to the relay that
  serves the client. \<open>route_client\<close> is composed of what happens up to the decision of the
  gate, of the connection attempts, and of what follows them; the two global tables are
  threaded through the first and the last part, so that the parts of concurrent clients can
  be interleaved. The environment holds what third-party code and the peers answer: the
  cipher, the network seen by the \<open>i\<close>-th connection attempt, random draws, the schedule of
  the relay, and plain TCP. Logging is left out.
\<close>

datatype init_read_error = InitIo io_error | InitTimeout

record resolved_telegram_init =
  packet :: bytes
  info :: telegram_init_info
  patched :: bool

datatype unknown_action = CloseClient | DirectPassthrough

record ws_connect_attempt =
  att_client :: "stream option"
  all_404 :: bool

record route_globals =
  backoff :: ws_backoff
  ipv6_cache :: ipv6_dc_cache

record 'c route_env =
  env_cipher :: "'c cipher_api"
  env_nets :: "nat \<Rightarrow> ws_net"
  env_rnds :: "nat \<Rightarrow> bytes option"
  env_sched :: "turn list"
  env_tcp :: tcp_net

text \<open>The operations of the gate on the global table.\<close>

definition begin_ws_probe :: "ws_key \<Rightarrow> nat \<Rightarrow> route_globals \<Rightarrow> ws_decision \<times> route_globals" where
  "begin_ws_probe key now g = (let (d, b) = begin_probe key now (backoff g) in (d, g\<lparr>backoff := b\<rparr>))"

definition record_ws_failure :: "ws_key \<Rightarrow> nat \<Rightarrow> route_globals \<Rightarrow> route_globals" where
  "record_ws_failure key now g = g\<lparr>backoff := record_failure key now (backoff g)\<rparr>"

definition disable_ws_route :: "ws_key \<Rightarrow> route_globals \<Rightarrow> route_globals" where
  "disable_ws_route key g = g\<lparr>backoff := disable_404 key (backoff g)\<rparr>"

definition clear_ws_probe :: "ws_key \<Rightarrow> route_globals \<Rightarrow> route_globals" where
  "clear_ws_probe key g = g\<lparr>backoff := clear_probe key (backoff g)\<rparr>"

lemma ws_gate_cache [simp]:
  "ipv6_cache (snd (begin_ws_probe key now g)) = ipv6_cache g"
  "ipv6_cache (record_ws_failure key now g) = ipv6_cache g"
  "ipv6_cache (disable_ws_route key g) = ipv6_cache g"
  "ipv6_cache (clear_ws_probe key g) = ipv6_cache g"
  by (simp_all add: begin_ws_probe_def record_ws_failure_def disable_ws_route_def clear_ws_probe_def case_prod_beta)

lemma ws_gate_backoff [simp]:
  "fst (begin_ws_probe key now g) = fst (begin_probe key now (backoff g))"
  "backoff (snd (begin_ws_probe key now g)) = snd (begin_probe key now (backoff g))"
  "backoff (record_ws_failure key now g) = record_failure key now (backoff g)"
  "backoff (disable_ws_route key g) = disable_404 key (backoff g)"
  "backoff (clear_ws_probe key g) = clear_probe key (backoff g)"
  by (simp_all add: begin_ws_probe_def record_ws_failure_def disable_ws_route_def clear_ws_probe_def case_prod_beta)

definition is_http_transport :: "bytes \<Rightarrow> bool" where
  "is_http_transport buf \<longleftrightarrow> prefix (bytes_of ''POST '') buf \<or> prefix (bytes_of ''GET '') buf
     \<or> prefix (bytes_of ''HEAD '') buf \<or> prefix (bytes_of ''OPTIONS '') buf"

text \<open>\<open>None\<close> is a panic while the address tables are built; \<open>Catalog\<close> shows that there is none.\<close>

definition route_decision :: "string \<Rightarrow> u16 \<Rightarrow> bool \<Rightarrow> string option" where
  "route_decision h p has_dc =
     (case is_telegram_ip h of
        None \<Rightarrow> None
      | Some tg \<Rightarrow>
          if \<not> tg then Some ''tcp_passthrough''
          else if has_dc \<and> p \<noteq> 0 then Some ''ws_only'' else Some ''unknown_dc'')"

section \<open>The init packet\<close>

definition read_telegram_init :: "(stream, bytes, init_read_error) io" where
  "read_telegram_init = (\<lambda>s. case read_exact 64 s of
      (Ok bs, s') \<Rightarrow> (Ok bs, s')
    | (Err e, s') \<Rightarrow> (Err (InitIo e), s')
    | (Panic p, s') \<Rightarrow> (Panic p, s')
    | (Pending, s') \<Rightarrow> (Err InitTimeout, s'))"

definition or_static :: "string \<Rightarrow> telegram_ip_entry option \<Rightarrow> telegram_ip_entry option option" where
  "or_static h learned = (case learned of Some e \<Rightarrow> Some (Some e) | None \<Rightarrow> ip_to_dc h)"

definition resolve_telegram_init ::
    "'c cipher_api \<Rightarrow> ipv6_dc_cache \<Rightarrow> string \<Rightarrow> bytes \<Rightarrow> resolved_telegram_init option" where
  "resolve_telegram_init C cache h init_data =
     (let i = extract_dc C init_data in
      if i_dc i \<noteq> None then Some \<lparr>packet = init_data, info = i, patched = False\<rparr>
      else case or_static h (learned_ipv6_entry h cache) of
        None \<Rightarrow> None
      | Some None \<Rightarrow> Some \<lparr>packet = init_data, info = i, patched = False\<rparr>
      | Some (Some e) \<Rightarrow>
          let p = patch_init_dc C init_data (signed_dc (e_dc e) (e_is_media e))
          in Some \<lparr>packet = p,
                   info = (extract_dc C p)\<lparr>i_dc := Some (e_dc e), i_is_media := e_is_media e\<rparr>,
                   patched = True\<rparr>)"

definition remember_telegram_ipv6 ::
    "string \<Rightarrow> bool \<Rightarrow> telegram_init_info \<Rightarrow> ipv6_dc_cache \<Rightarrow> ipv6_dc_cache" where
  "remember_telegram_ipv6 h target_is_ipv6 i cache =
     (if target_is_ipv6
      then (case i_dc i of
              Some dc \<Rightarrow> remember_ipv6_entry h \<lparr>e_dc = dc, e_is_media = i_is_media i\<rparr> cache
            | None \<Rightarrow> cache)
      else cache)"

section \<open>Direct connections\<close>

type_synonym direct_result = "(unit, io_error) outcome \<times> stream \<times> stream option"

definition passthrough_non_telegram :: "tcp_net \<Rightarrow> stream \<Rightarrow> string \<Rightarrow> u16 \<Rightarrow> direct_result" where
  "passthrough_non_telegram net s h p = bridge_tcp_tcp net s h p"

definition unknown_dc_action :: "bool \<Rightarrow> unknown_action" where
  "unknown_dc_action target_is_ipv6 = (if target_is_ipv6 then DirectPassthrough else CloseClient)"

definition handle_unknown_dc ::
    "tcp_net \<Rightarrow> stream \<Rightarrow> string \<Rightarrow> u16 \<Rightarrow> bool \<Rightarrow> bytes \<Rightarrow> direct_result option" where
  "handle_unknown_dc net s h p target_is_ipv6 init_data =
     (if unknown_dc_action target_is_ipv6 = DirectPassthrough
      then Some (bridge_tcp_tcp_with_prelude net s h p init_data) else None)"

section \<open>Connecting to the WebSocket hosts\<close>

fun connect_ws_from ::
    "(nat \<Rightarrow> ws_net) \<Rightarrow> nat \<Rightarrow> nat \<Rightarrow> string list \<Rightarrow> bool \<Rightarrow> (ws_connect_attempt, ws_error) outcome" where
  "connect_ws_from nets i ms [] flag = Ok \<lparr>att_client = None, all_404 = flag\<rparr>"
| "connect_ws_from nets i ms (domain # ds) flag =
     (case ws_connect (nets i) domain ms of
        Ok w \<Rightarrow> Ok \<lparr>att_client = Some w, all_404 = flag\<rparr>
      | Err e \<Rightarrow> connect_ws_from nets (Suc i) ms ds (if status_code e \<noteq> Some 404 then False else flag)
      | Panic p \<Rightarrow> Panic p
      | Pending \<Rightarrow> Pending)"

definition connect_ws_route ::
    "(nat \<Rightarrow> ws_net) \<Rightarrow> routed_config \<Rightarrow> u8 \<Rightarrow> bool \<Rightarrow> (ws_connect_attempt, ws_error) outcome" where
  "connect_ws_route nets cfg dc is_media =
     connect_ws_from nets 0 (connect_timeout_secs cfg * 1000) (ws_domains dc is_media) True"

section \<open>One client\<close>

datatype 'c route_outcome =
    InvalidSocks socks_error
  | PassedThrough direct_result
  | InitFailed init_read_error
  | HttpRejected
  | UnknownDc "direct_result option"
  | RouteCooldown
  | RouteDisabled
  | Bridged "(bridge_stats \<times> bridge_stats, bridge_error) outcome \<times> 'c bridge option"
  | RouteUnavailable
  | RoutePanicked string
  | RoutePending

record route_ready =
  rd_stream :: stream
  rd_packet :: bytes
  rd_key :: ws_key
  rd_now :: nat

text \<open>With a resolved init packet: up to the decision of the gate.\<close>

definition route_resolved ::
    "'c route_env \<Rightarrow> nat \<Rightarrow> stream \<Rightarrow> string \<Rightarrow> u16 \<Rightarrow> resolved_telegram_init \<Rightarrow> route_globals
      \<Rightarrow> ('c route_outcome + route_ready) \<times> route_globals" where
  "route_resolved env now s h p r g =
     (let g1 = g\<lparr>ipv6_cache := remember_telegram_ipv6 h (is_ipv6 h) (info r) (ipv6_cache g)\<rparr> in
      if is_http_transport (packet r) then (Inl HttpRejected, g1)
      else case i_dc (info r) of
        None \<Rightarrow> (Inl (UnknownDc (handle_unknown_dc (env_tcp env) s h p (is_ipv6 h) (packet r))), g1)
      | Some dc \<Rightarrow>
          let key = (dc, i_is_media (info r));
              (d, g2) = begin_ws_probe key now g1
          in case d of
               Cooldown \<Rightarrow> (Inl RouteCooldown, g2)
             | Disabled404 \<Rightarrow> (Inl RouteDisabled, g2)
             | _ \<Rightarrow> (Inr \<lparr>rd_stream = s, rd_packet = packet r, rd_key = key, rd_now = now\<rparr>, g2))"

definition route_begin ::
    "'c route_env \<Rightarrow> routed_config \<Rightarrow> nat \<Rightarrow> stream \<Rightarrow> route_globals
      \<Rightarrow> ('c route_outcome + route_ready) \<times> route_globals" where
  "route_begin env cfg now s g =
     (case handle_socks5_handshake (socks_auth cfg) s of
        (Err e, s1) \<Rightarrow> (Inl (InvalidSocks e), g)
      | (Panic p, s1) \<Rightarrow> (Inl (RoutePanicked p), g)
      | (Pending, s1) \<Rightarrow> (Inl RoutePending, g)
      | (Ok (Connect h p), s1) \<Rightarrow>
          (case is_telegram_ip h of
             None \<Rightarrow> (Inl (RoutePanicked ''address table''), g)
           | Some False \<Rightarrow> (Inl (PassedThrough (passthrough_non_telegram (env_tcp env) s1 h p)), g)
           | Some True \<Rightarrow>
               (case read_telegram_init s1 of
                  (Err e, s2) \<Rightarrow> (Inl (InitFailed e), g)
                | (Panic m, s2) \<Rightarrow> (Inl (RoutePanicked m), g)
                | (Pending, s2) \<Rightarrow> (Inl RoutePending, g)
                | (Ok init_data, s2) \<Rightarrow>
                    (case resolve_telegram_init (env_cipher env) (ipv6_cache g) h init_data of
                       None \<Rightarrow> (Inl (RoutePanicked ''address table''), g)
                     | Some r \<Rightarrow> route_resolved env now s2 h p r g))))"

definition route_finish ::
    "'c route_env \<Rightarrow> route_ready \<Rightarrow> (ws_connect_attempt, ws_error) outcome \<Rightarrow> route_globals
      \<Rightarrow> 'c route_outcome \<times> route_globals" where
  "route_finish env rd att g =
     (case att of
        Err e \<Rightarrow> (RoutePanicked ''unreachable'', g)
      | Panic p \<Rightarrow> (RoutePanicked p, g)
      | Pending \<Rightarrow> (RoutePending, g)
      | Ok a \<Rightarrow>
          (case att_client a of
             Some w \<Rightarrow>
               (Bridged (bridge_ws_tcp (env_cipher env) (env_rnds env) (env_sched env) (rd_stream rd) w (rd_packet rd)
                   (splitter_new (env_cipher env) (rd_packet rd))),
                clear_ws_probe (rd_key rd) g)
           | None \<Rightarrow>
               (RouteUnavailable,
                if all_404 a then disable_ws_route (rd_key rd) g
                else record_ws_failure (rd_key rd) (rd_now rd) g)))"

definition route_client ::
    "'c route_env \<Rightarrow> routed_config \<Rightarrow> nat \<Rightarrow> stream \<Rightarrow> route_globals \<Rightarrow> 'c route_outcome \<times> route_globals" where
  "route_client env cfg now s g =
     (case route_begin env cfg now s g of
        (Inl out, g1) \<Rightarrow> (out, g1)
      | (Inr rd, g1) \<Rightarrow>
          route_finish env rd (connect_ws_route (env_nets env) cfg (fst (rd_key rd)) (snd (rd_key rd))) g1)"

section \<open>Totality of the tables\<close>

lemma is_telegram_ip_total: "is_telegram_ip h \<noteq> None"
  by (auto simp: is_telegram_ip_def TG_IPV4_RANGES_table TG_IPV6_RANGES_table split: option.split ip_addr.split)

lemma ip_to_dc_total: "ip_to_dc h \<noteq> None"
  by (simp add: ip_to_dc_def IP_TO_DC_table split: option.split)

lemma ip_to_dc_range: "ip_to_dc h = Some (Some e) \<Longrightarrow> 1 \<le> e_dc e \<and> e_dc e \<le> 5"
  using ip_to_dc_table_ok by (elim ip_to_dc_Some) (fastforce simp: list_all_iff)

lemma ip_to_dc_ipv6: "ip_to_dc (ipv6_to_string a) = Some None"
  by (simp add: ip_to_dc_def ipv4_from_str_ipv6)

lemma or_static_total: "or_static h l \<noteq> None"
  using ip_to_dc_total by (simp add: or_static_def split: option.split)

section \<open>The learned data centres\<close>

text \<open>The invariant of the cache: every learned data centre is one of 1 to 5.\<close>

definition valid_entry :: "telegram_ip_entry \<Rightarrow> bool" where
  "valid_entry e \<longleftrightarrow> 1 \<le> e_dc e \<and> e_dc e \<le> 5"

definition cache_ok :: "ipv6_dc_cache \<Rightarrow> bool" where
  "cache_ok cache \<longleftrightarrow> (\<forall>e \<in> ran cache. valid_entry e)"

definition info_ok :: "telegram_init_info \<Rightarrow> bool" where
  "info_ok i \<longleftrightarrow> (\<forall>d. i_dc i = Some d \<longrightarrow> 1 \<le> d \<and> d \<le> 5)"

lemma extract_dc_ok: "info_ok (extract_dc C data)"
  using extract_dc_range [of C data] by (auto simp: info_ok_def)

lemma learned_entry_ok: "cache_ok cache \<Longrightarrow> learned_ipv6_entry h cache = Some e \<Longrightarrow> valid_entry e"
  by (auto simp: cache_ok_def learned_ipv6_entry_def split: option.splits intro: ranI)

lemma or_static_ok:
  "cache_ok cache \<Longrightarrow> or_static h (learned_ipv6_entry h cache) = Some (Some e) \<Longrightarrow> valid_entry e"
  using learned_entry_ok [of cache h] ip_to_dc_range [of h]
  by (auto simp: or_static_def valid_entry_def split: option.splits)

lemma resolve_ok:
  assumes "cache_ok cache" "resolve_telegram_init C cache h init_data = Some r"
  shows "info_ok (info r)"
  using assms or_static_ok [OF assms(1), of h] extract_dc_ok [of C init_data]
  by (auto simp: resolve_telegram_init_def Let_def info_ok_def valid_entry_def split: if_splits option.splits)

lemma remember_ok:
  assumes "cache_ok cache" "info_ok i"
  shows "cache_ok (remember_telegram_ipv6 h v6 i cache)"
  using assms
  by (auto simp: remember_telegram_ipv6_def remember_ipv6_entry_def cache_ok_def info_ok_def valid_entry_def
      ran_def split: option.splits if_splits)

lemma route_resolved_cache:
  "ipv6_cache (snd (route_resolved env now s h p r g)) = remember_telegram_ipv6 h (is_ipv6 h) (info r) (ipv6_cache g)"
  by (simp add: route_resolved_def Let_def case_prod_beta split: option.split ws_decision.split)

lemma resolve_remember_ok:
  "cache_ok cache \<Longrightarrow> resolve_telegram_init C cache h init_data = Some r \<Longrightarrow>
   cache_ok (remember_telegram_ipv6 h v6 (info r) cache)"
  using remember_ok resolve_ok by blast

lemma route_begin_cache_ok:
  assumes "cache_ok (ipv6_cache g)"
  shows "cache_ok (ipv6_cache (snd (route_begin env cfg now s g)))"
  using assms
  by (auto simp: route_begin_def route_resolved_cache split: prod.split outcome.split socks_command.split
      option.split bool.split intro: resolve_remember_ok)

text \<open>
  C26. The invariant of the learned table: starting from the empty table, whatever clients
  are routed, every learned data centre is one of 1 to 5, so no host name is ever built for
  another number.
\<close>

theorem route_client_cache_invariant:
  assumes "cache_ok (ipv6_cache g)"
  shows "cache_ok (ipv6_cache (snd (route_client env cfg now s g)))"
  using route_begin_cache_ok [OF assms, of env cfg now s]
  by (auto simp: route_client_def route_finish_def split: prod.split sum.split outcome.split option.split)

section \<open>Resolving the init packet\<close>

lemma prefix_take_cong: "take 8 a = take 8 b \<Longrightarrow> length x \<le> 8 \<Longrightarrow> prefix x a \<longleftrightarrow> prefix x b"
  by (metis (no_types, lifting) prefix_def append_eq_conv_conj min.absorb1 take_take)

lemma patch_take_8: "take 8 (patch_init_dc C data dc) = take 8 data"
  by (rule nth_equalityI) (simp_all add: nth_patch_init_dc)

lemma is_http_patch: "is_http_transport (patch_init_dc C data dc) \<longleftrightarrow> is_http_transport data"
  by (simp add: is_http_transport_def prefix_take_cong [OF patch_take_8])

lemma resolve_packet_http:
  "resolve_telegram_init C cache h init_data = Some r \<Longrightarrow> is_http_transport (packet r) \<longleftrightarrow> is_http_transport init_data"
  by (auto simp: resolve_telegram_init_def Let_def is_http_patch split: if_splits option.splits)

text \<open>
  C17. Resolving an init packet: a packet that names its data centre is used as it is; one
  that does not is patched with the learned data centre of its target, or else the static
  one, and then names exactly that data centre, with all bytes but 60 and 61 unchanged; with
  neither, it is used as it is and the data centre stays unknown.
\<close>

theorem resolve_telegram_init_cases:
  assumes "length init_data = 64" "known_tag (init_tag (ctr_api enc) init_data)" "cache_ok cache"
  shows "\<exists>r. resolve_telegram_init (ctr_api enc) cache h init_data = Some r
    \<and> (i_dc (extract_dc (ctr_api enc) init_data) \<noteq> None \<longrightarrow>
         packet r = init_data \<and> info r = extract_dc (ctr_api enc) init_data \<and> \<not> patched r)
    \<and> (i_dc (extract_dc (ctr_api enc) init_data) = None \<longrightarrow>
         (case or_static h (learned_ipv6_entry h cache) of
            Some (Some e) \<Rightarrow> patched r \<and> extract_dc (ctr_api enc) (packet r) = info r
              \<and> info r = \<lparr>i_dc = Some (e_dc e), i_is_media = e_is_media e\<rparr>
              \<and> (\<forall>i. i \<noteq> 60 \<and> i \<noteq> 61 \<longrightarrow> i < 64 \<longrightarrow> packet r ! i = init_data ! i)
          | _ \<Rightarrow> packet r = init_data \<and> i_dc (info r) = None \<and> \<not> patched r))"
proof -
  let ?C = "ctr_api enc"
  obtain o' where o: "or_static h (learned_ipv6_entry h cache) = Some o'" using or_static_total by blast
  show ?thesis
  proof (cases "i_dc (extract_dc ?C init_data) = None \<and> o' \<noteq> None")
    case True
    then obtain e where e: "o' = Some e" by blast
    then have "valid_entry e" using or_static_ok [OF assms(3)] o by blast
    let ?p = "patch_init_dc ?C init_data (signed_dc (e_dc e) (e_is_media e))"
    have x: "extract_dc ?C ?p = \<lparr>i_dc = Some (e_dc e), i_is_media = e_is_media e\<rparr>"
      using ctr.extract_patched [of init_data enc] assms(1,2) \<open>valid_entry e\<close>
      by (simp add: info_of_signed_dc valid_entry_def)
    with True o e assms(1) show ?thesis
      by (simp add: resolve_telegram_init_def Let_def nth_patch_init_dc)
  next
    case False
    with o show ?thesis by (auto simp: resolve_telegram_init_def Let_def split: option.splits)
  qed
qed

section \<open>A client's requests\<close>

text \<open>What a client has to send for its SOCKS request to be accepted.\<close>

definition asks_for ::
    "socks_auth_config option \<Rightarrow> socks_target \<Rightarrow> u16 \<Rightarrow> bytes \<Rightarrow> stream \<Rightarrow> bool" where
  "asks_for auth t p rest s \<longleftrightarrow> writable s \<and> wf_target t
     \<and> (\<exists>methods u pw. rx s = client_exchange auth methods u pw t p @ rest \<and> length methods < 256
          \<and> method_for auth \<in> set methods \<and> login_ok auth u pw)"

definition answered :: "socks_auth_config option \<Rightarrow> bytes \<Rightarrow> stream \<Rightarrow> stream" where
  "answered auth rest s = s\<lparr>rx := rest, tx := tx s @ server_replies auth\<rparr>"

lemma asks_for_run:
  "asks_for auth t p rest s \<Longrightarrow>
   handle_socks5_handshake auth s = (Ok (Connect (target_text t) p), answered auth rest s)"
  by (auto simp: asks_for_def answered_def intro: handshake_run)

lemma read_telegram_init_run:
  "length init_data = 64 \<Longrightarrow> read_telegram_init (answered auth (init_data @ tail) s) = (Ok init_data, answered auth tail s)"
  using read_exact_append [of "answered auth (init_data @ tail) s" init_data tail 64]
  by (simp add: read_telegram_init_def answered_def)

lemma route_begin_telegram:
  assumes "asks_for (socks_auth cfg) t p (init_data @ tail) s" "length init_data = 64"
    and "is_telegram_ip (target_text t) = Some True"
    and "resolve_telegram_init (env_cipher env) (ipv6_cache g) (target_text t) init_data = Some r"
  shows "route_begin env cfg now s g
    = route_resolved env now (answered (socks_auth cfg) tail s) (target_text t) p r g"
  using assms by (simp add: route_begin_def asks_for_run read_telegram_init_run)

text \<open>
  C27. Traffic that is not for Telegram is relayed untouched: a client whose accepted request
  names any target outside the Telegram ranges, a host name included, is connected to that
  target and port, every byte behind its request goes into that relay, and neither the gate
  nor the learned table changes.
\<close>

theorem route_passes_through:
  assumes "asks_for (socks_auth cfg) t p rest s" "is_telegram_ip (target_text t) = Some False"
  shows "route_client env cfg now s g
    = (PassedThrough (bridge_tcp_tcp (env_tcp env) (answered (socks_auth cfg) rest s) (target_text t) p), g)"
  using assms by (simp add: route_client_def route_begin_def asks_for_run passthrough_non_telegram_def)

definition demo_env :: "ctr_state route_env" where
  "demo_env = \<lparr>env_cipher = ctr_api demo_block, env_nets = (\<lambda>_. demo_net demo_stream), env_rnds = (\<lambda>_. None),
     env_sched = [Up 10, Down, Up 1],
     env_tcp = \<lparr>connect_host = (\<lambda>_ _. Inr (open_stream [] Eof)), copy_bidirectional = (\<lambda>c r. (Ok (), c, r))\<rparr>\<rparr>"

definition demo_cfg :: routed_config where
  "demo_cfg = \<lparr>read_timeout_secs = 15, connect_timeout_secs = 10, socks_auth = None\<rparr>"

definition demo_globals :: route_globals where
  "demo_globals = \<lparr>backoff = backoff_default, ipv6_cache = Map.empty\<rparr>"

definition demo_request :: "socks_target \<Rightarrow> bytes \<Rightarrow> stream" where
  "demo_request t rest = open_stream (client_exchange None [0] [] [] t 443 @ rest) Eof"

lemma demo_asks: "wf_target t \<Longrightarrow> asks_for (socks_auth demo_cfg) t 443 rest (demo_request t rest)"
  unfolding asks_for_def demo_request_def demo_cfg_def
  by (intro conjI exI [of _ "[0]"] exI [of _ "[] :: string"]) (simp_all add: method_for_def login_ok_def)

lemma demo_sel: "env_cipher demo_env = ctr_api demo_block" "ipv6_cache demo_globals = Map.empty"
  "socks_auth demo_cfg = None" "backoff demo_globals = backoff_default"
  by (simp_all add: demo_env_def demo_globals_def demo_cfg_def)

theorem route_passes_through_witness:
  "route_client demo_env demo_cfg 0 (demo_request (TargetDomain ''a.b'') [1, 2]) demo_globals
    = (PassedThrough (bridge_tcp_tcp (env_tcp demo_env)
        (answered None [1, 2] (demo_request (TargetDomain ''a.b'') [1, 2])) ''a.b'' 443), demo_globals)"
proof -
  have "wf_target (TargetDomain ''a.b'')" "is_telegram_ip (target_text (TargetDomain ''a.b'')) = Some False" by code_simp+
  from route_passes_through [OF demo_asks [OF this(1)] this(2), where env = demo_env and now = 0 and g = demo_globals and rest = "[1, 2]"]
  show ?thesis by (simp add: demo_sel)
qed

theorem route_client_cache_invariant_witness:
  "cache_ok (ipv6_cache (snd (route_client demo_env demo_cfg 0 (demo_request (TargetV6 1) []) demo_globals)))"
  by (rule route_client_cache_invariant) (simp add: demo_globals_def cache_ok_def)

text \<open>
  C28. Unknown data centre: when neither the packet, the learned table nor the static table
  names a data centre, an IPv4 client is closed, and an IPv6 client is connected directly
  with exactly the 64 bytes it sent replayed in front of the rest; HTTP requests to Telegram
  addresses are closed before that.
\<close>

theorem route_unknown_dc:
  assumes "asks_for (socks_auth cfg) t p (init_data @ tail) s" "length init_data = 64"
    and "is_telegram_ip (target_text t) = Some True" "i_dc (extract_dc (env_cipher env) init_data) = None"
    and "or_static (target_text t) (learned_ipv6_entry (target_text t) (ipv6_cache g)) = Some None"
  shows "route_client env cfg now s g =
    (if is_http_transport init_data then HttpRejected
     else if is_ipv6 (target_text t)
     then UnknownDc (Some (bridge_tcp_tcp_with_prelude (env_tcp env) (answered (socks_auth cfg) tail s)
            (target_text t) p init_data))
     else UnknownDc None, g)"
proof -
  let ?i = "extract_dc (env_cipher env) init_data"
  have "resolve_telegram_init (env_cipher env) (ipv6_cache g) (target_text t) init_data
      = Some \<lparr>packet = init_data, info = ?i, patched = False\<rparr>"
    using assms(4,5) by (simp add: resolve_telegram_init_def Let_def)
  from route_begin_telegram [OF assms(1-3) this] assms(4) show ?thesis
    by (simp add: route_client_def route_resolved_def Let_def remember_telegram_ipv6_def handle_unknown_dc_def
        unknown_dc_action_def)
qed

lemma demo_not_http: "\<not> is_http_transport (demo_init dc)"
proof -
  have "replicate 8 (1 :: byte) = 1 # replicate 7 1" by code_simp
  then have "\<exists>xs. demo_init dc = 1 # xs" by (simp add: demo_init_def init_packet_def demo_prefix_def)
  then show ?thesis by (auto simp: is_http_transport_def bytes_of_def)
qed

theorem route_unknown_dc_witness:
  "route_client demo_env demo_cfg 0 (demo_request (TargetV6 0x2001067c04e800000000000000000001) (demo_packet @ [5])) demo_globals
    = (UnknownDc (Some (bridge_tcp_tcp_with_prelude (env_tcp demo_env)
        (answered None [5] (demo_request (TargetV6 0x2001067c04e800000000000000000001) (demo_packet @ [5])))
        (ipv6_to_string 0x2001067c04e800000000000000000001) 443 demo_packet)), demo_globals)"
proof -
  let ?t = "TargetV6 0x2001067c04e800000000000000000001"
  have "wf_target ?t" by simp
  moreover have "is_telegram_ip (target_text ?t) = Some True"
    unfolding target_text.simps is_telegram_ip_v6_prefix by code_simp
  moreover have "i_dc (extract_dc (env_cipher demo_env) demo_packet) = None"
    by (simp add: demo_sel demo_init info_of_raw_0)
  moreover note demo_not_http [of 0]
  moreover have "or_static (target_text ?t) (learned_ipv6_entry (target_text ?t) (ipv6_cache demo_globals)) = Some None"
    unfolding demo_sel by (simp add: or_static_def ip_to_dc_ipv6 learned_ipv6_entry_def split: option.split)
  moreover have "is_ipv6 (target_text ?t)" by (simp add: is_ipv6_def)
  ultimately show ?thesis
    using route_unknown_dc [OF demo_asks demo_packet_tag(1), where t = ?t and env = demo_env and g = demo_globals and tail = "[5]" and now = 0] by (simp add: demo_sel)
qed

section \<open>Connecting and the gate\<close>

text \<open>The answer of the \<open>i\<close>-th host of a route.\<close>

abbreviation host_answer :: "(nat \<Rightarrow> ws_net) \<Rightarrow> routed_config \<Rightarrow> u8 \<Rightarrow> bool \<Rightarrow> nat \<Rightarrow> (stream, ws_error) outcome" where
  "host_answer nets cfg dc is_media i \<equiv>
     ws_connect (nets i) (ws_domains dc is_media ! i) (connect_timeout_secs cfg * 1000)"

lemma ex_less_Suc: "(\<exists>i < Suc n. P i) \<longleftrightarrow> P 0 \<or> (\<exists>i < n. P (Suc i))"
  using Ex_less_Suc2 by blast

lemma connect_ws_from_Some:
  "(\<exists>a. connect_ws_from nets i ms ds flag = Ok a \<and> att_client a = Some w) \<longleftrightarrow>
   (\<exists>k < length ds. ws_connect (nets (i + k)) (ds ! k) ms = Ok w
      \<and> (\<forall>j < k. \<exists>e. ws_connect (nets (i + j)) (ds ! j) ms = Err e))"
proof (induction nets i ms ds flag rule: connect_ws_from.induct)
  case (2 nets i ms d ds flag)
  then show ?case
    by (cases "ws_connect (nets i) d ms") (simp_all add: ex_less_Suc All_less_Suc2)
qed simp

lemma connect_ws_from_None:
  "connect_ws_from nets i ms ds flag = Ok \<lparr>att_client = None, all_404 = f\<rparr> \<longleftrightarrow>
   (\<forall>k < length ds. \<exists>e. ws_connect (nets (i + k)) (ds ! k) ms = Err e)
   \<and> f = (flag \<and> (\<forall>k < length ds. \<exists>l. ws_connect (nets (i + k)) (ds ! k) ms = Err (HttpStatus 404 l)))"
proof (induction nets i ms ds flag rule: connect_ws_from.induct)
  case (2 nets i ms d ds flag)
  have "status_code e = Some 404 \<longleftrightarrow> (\<exists>l. e = HttpStatus 404 l)" for e by (cases e) auto
  with 2 show ?case
    by (cases "ws_connect (nets i) d ms") (auto simp: All_less_Suc2)
qed auto

lemma connect_ws_from_not_Err: "connect_ws_from nets i ms ds flag \<noteq> Err e"
  by (induction nets i ms ds flag rule: connect_ws_from.induct) (auto split: outcome.split)

text \<open>
  C24. The outcome of the connection attempts of a route, exactly: the connection used is the
  one to the first host that accepts, and the later hosts are not contacted; the route has
  failed when every host answered with an error, and it counts as gone when all of these
  were the HTTP status 404; a host that never answers or a panic ends the attempt there, and
  no error is passed on.
\<close>

theorem connect_ws_route_outcome:
  "((\<exists>a. connect_ws_route nets cfg dc m = Ok a \<and> att_client a = Some w) \<longleftrightarrow>
      (\<exists>k < length (ws_domains dc m). host_answer nets cfg dc m k = Ok w
        \<and> (\<forall>j < k. \<exists>e. host_answer nets cfg dc m j = Err e)))
    \<and> (connect_ws_route nets cfg dc m = Ok \<lparr>att_client = None, all_404 = f\<rparr> \<longleftrightarrow>
        (\<forall>k < length (ws_domains dc m). \<exists>e. host_answer nets cfg dc m k = Err e)
        \<and> f = (\<forall>k < length (ws_domains dc m). \<exists>l. host_answer nets cfg dc m k = Err (HttpStatus 404 l)))
    \<and> connect_ws_route nets cfg dc m \<noteq> Err err"
  unfolding connect_ws_route_def
  using connect_ws_from_Some [of nets 0 _ "ws_domains dc m" True w] connect_ws_from_None [of nets 0 _ "ws_domains dc m" True f]
  by (simp add: connect_ws_from_not_Err)

theorem connect_ws_route_outcome_witness:
  "(\<exists>a. connect_ws_route (\<lambda>i. if i = 0 then demo_gone else demo_net demo_stream) demo_cfg 2 False = Ok a
      \<and> att_client a = Some (demo_open ''kws2-1.web.telegram.org''))
    \<and> connect_ws_route (\<lambda>_. demo_gone) demo_cfg 2 True = Ok \<lparr>att_client = None, all_404 = True\<rparr>"
proof
  have d: "ws_domains 2 False = [''kws2.web.telegram.org'', ''kws2-1.web.telegram.org'']"
    "length (ws_domains 2 True) = 2" by code_simp+
  then show "\<exists>a. connect_ws_route (\<lambda>i. if i = 0 then demo_gone else demo_net demo_stream) demo_cfg 2 False = Ok a
      \<and> att_client a = Some (demo_open ''kws2-1.web.telegram.org'')"
    by (intro conjunct1 [OF connect_ws_route_outcome, THEN iffD2] exI [of _ 1])
      (simp add: demo_connect demo_gone_connect)
  show "connect_ws_route (\<lambda>_. demo_gone) demo_cfg 2 True = Ok \<lparr>att_client = None, all_404 = True\<rparr>"
    using connect_ws_route_outcome [of "\<lambda>_. demo_gone" demo_cfg 2 True _ True] by (simp add: demo_gone_connect)
qed

section \<open>Clients of one route\<close>

text \<open>A client whose request and init packet select the route \<open>key\<close>.\<close>

definition selects_route :: "'c route_env \<Rightarrow> routed_config \<Rightarrow> stream \<Rightarrow> route_globals \<Rightarrow> ws_key \<Rightarrow> bool" where
  "selects_route env cfg s g key \<longleftrightarrow>
     (\<exists>t p init_data tail r. asks_for (socks_auth cfg) t p (init_data @ tail) s \<and> length init_data = 64
        \<and> is_telegram_ip (target_text t) = Some True \<and> \<not> is_http_transport init_data
        \<and> resolve_telegram_init (env_cipher env) (ipv6_cache g) (target_text t) init_data = Some r
        \<and> i_dc (info r) = Some (fst key) \<and> i_is_media (info r) = snd key)"

lemma route_begin_selected:
  assumes "selects_route env cfg s g key"
  shows "(case fst (begin_probe key now (backoff g)) of
      Cooldown \<Rightarrow> fst (route_begin env cfg now s g) = Inl RouteCooldown
    | Disabled404 \<Rightarrow> fst (route_begin env cfg now s g) = Inl RouteDisabled
    | _ \<Rightarrow> \<exists>rd. fst (route_begin env cfg now s g) = Inr rd \<and> rd_key rd = key \<and> rd_now rd = now)"
proof -
  from assms obtain t p init_data tail r where
    t: "asks_for (socks_auth cfg) t p (init_data @ tail) s" "length init_data = 64" "is_telegram_ip (target_text t) = Some True"
    and http: "\<not> is_http_transport init_data"
    and r: "resolve_telegram_init (env_cipher env) (ipv6_cache g) (target_text t) init_data = Some r"
    and key: "i_dc (info r) = Some (fst key)" "i_is_media (info r) = snd key"
    unfolding selects_route_def by blast
  have "\<not> is_http_transport (packet r)" using http resolve_packet_http [OF r] by simp
  with route_begin_telegram [OF t r] key show ?thesis
    by (simp add: route_resolved_def Let_def case_prod_beta split: ws_decision.split)
qed

text \<open>
  C23. A failed route protects the clients that follow: when the attempts of a client on a
  route have failed, the next client of that route within 60 seconds is closed without any
  connection attempt; it is told the route is disabled exactly when all hosts had answered
  404, else that the route cools down.
\<close>

theorem unavailable_route_refuses_next_client:
  assumes "selects_route env cfg s g key" "route_client env cfg now s g = (RouteUnavailable, g1)"
    and "selects_route env' cfg' s' g1 key" "now' < now + 60000"
  shows "fst (route_client env' cfg' now' s' g1) =
    (if \<forall>k < length (ws_domains (fst key) (snd key)).
         \<exists>l. host_answer (env_nets env) cfg (fst key) (snd key) k = Err (HttpStatus 404 l)
     then RouteDisabled else RouteCooldown)"
proof -
  let ?att = "connect_ws_route (env_nets env) cfg (fst key) (snd key)"
  obtain g0 rd where b: "route_begin env cfg now s g = (Inr rd, g0)" "rd_key rd = key" "rd_now rd = now"
    using route_begin_selected [OF assms(1), of now] assms(2)
    by (cases "route_begin env cfg now s g") (auto simp: route_client_def split: ws_decision.splits)
  with assms(2) have f: "route_finish env rd ?att g0 = (RouteUnavailable, g1)" by (simp add: route_client_def)
  then obtain a where a: "?att = Ok a" "att_client a = None"
    and g1: "g1 = (if all_404 a then disable_ws_route key g0 else record_ws_failure key now g0)"
    using b by (auto simp: route_finish_def split: outcome.splits option.splits)
  then have "?att = Ok \<lparr>att_client = None, all_404 = all_404 a\<rparr>" by simp
  then have all: "all_404 a \<longleftrightarrow> (\<forall>k < length (ws_domains (fst key) (snd key)).
      \<exists>l. host_answer (env_nets env) cfg (fst key) (snd key) k = Err (HttpStatus 404 l))"
    unfolding connect_ws_route_def connect_ws_from_None by simp
  have "fst (begin_probe key now' (backoff g1)) = (if all_404 a then Disabled404 else Cooldown)"
    using gate.start_failed gate.start_disabled assms(4) by (simp add: g1 WS_FAILURE_COOLDOWN_def)
  with route_begin_selected [OF assms(3), of now'] all show ?thesis
    by (cases "route_begin env' cfg' now' s' g1") (auto simp: route_client_def split: if_splits)
qed

text \<open>
  C25. Learned data centres serve later clients: after a client of an IPv6 target whose init
  packet names data centre \<open>d\<close>, the packet of a client of the same address, in whatever
  spelling, that names none is patched with \<open>d\<close> and the media flag, and the client selects
  that route.
\<close>

theorem learned_ipv6_serves_later_client:
  assumes "asks_for (socks_auth cfg) (TargetV6 a) p (init_data @ tail) s" "length init_data = 64"
    and "is_telegram_ip (ipv6_to_string a) = Some True" "i_dc (extract_dc (env_cipher env) init_data) = Some d"
    and "i_is_media (extract_dc (env_cipher env) init_data) = m"
    and "ipv6_from_str h = Some a" "i_dc (extract_dc C init_data') = None"
  shows "\<exists>r. resolve_telegram_init C (ipv6_cache (snd (route_client env cfg now s g))) h init_data' = Some r
    \<and> i_dc (info r) = Some d \<and> i_is_media (info r) = m
    \<and> packet r = patch_init_dc C init_data' (signed_dc d m)"
proof -
  let ?i = "extract_dc (env_cipher env) init_data" and ?h = "ipv6_to_string a"
  have "resolve_telegram_init (env_cipher env) (ipv6_cache g) ?h init_data
      = Some \<lparr>packet = init_data, info = ?i, patched = False\<rparr>"
    using assms(4) by (simp add: resolve_telegram_init_def Let_def)
  with route_begin_telegram [OF assms(1,2), of env g _ now] assms(3)
  have "ipv6_cache (snd (route_begin env cfg now s g)) = remember_telegram_ipv6 ?h True ?i (ipv6_cache g)"
    by (simp add: route_resolved_cache is_ipv6_def)
  moreover have "ipv6_cache (snd (route_client env cfg now s g)) = ipv6_cache (snd (route_begin env cfg now s g))"
    by (auto simp: route_client_def route_finish_def split: prod.split sum.split outcome.split option.split)
  ultimately have "learned_ipv6_entry h (ipv6_cache (snd (route_client env cfg now s g)))
      = Some \<lparr>e_dc = d, e_is_media = m\<rparr>"
    using assms(4-6) by (simp add: remember_telegram_ipv6_def dc_cache.recall_learn)
  then show ?thesis
    using assms(7) by (simp add: resolve_telegram_init_def or_static_def Let_def)
qed

abbreviation demo_v6 :: u128 where
  "demo_v6 \<equiv> 0x2001067c04e800000000000000000001"

lemma demo_v6_telegram: "is_telegram_ip (ipv6_to_string demo_v6) = Some True"
  unfolding is_telegram_ip_v6_prefix by code_simp

lemma info_of_raw_2: "info_of_raw 2 = \<lparr>i_dc = Some 2, i_is_media = False\<rparr>"
  by (simp add: info_of_raw_def unsigned_abs_def Let_def)

theorem learned_ipv6_serves_later_client_witness:
  "\<exists>r. resolve_telegram_init (ctr_api demo_block)
      (ipv6_cache (snd (route_client demo_env demo_cfg 0 (demo_request (TargetV6 demo_v6) (demo_init 2 @ [1])) demo_globals)))
      ''2001:67C:4E8:0::1'' (demo_init 0) = Some r
    \<and> i_dc (info r) = Some 2 \<and> \<not> i_is_media (info r)"
proof -
  have "ipv6_from_str ''2001:67C:4E8:0::1'' = Some demo_v6" by code_simp
  with learned_ipv6_serves_later_client [OF demo_asks demo_init(1) [of 2] demo_v6_telegram, where env = demo_env and now = 0 and tail = "[1]"
      and d = 2 and m = False and h = "''2001:67C:4E8:0::1''" and C = "ctr_api demo_block" and init_data' = "demo_init 0"
      and g = demo_globals]
  show ?thesis by (simp add: demo_sel demo_init info_of_raw_0 info_of_raw_2) blast
qed

text \<open>The same client against a route whose hosts refuse.\<close>

definition demo_dead :: ws_net where
  "demo_dead = demo_gone\<lparr>tcp_connect := (\<lambda>_ _ _. None)\<rparr>"

lemma demo_dead_connect: "ws_connect demo_dead domain t = Err Timeout"
  by (simp add: demo_dead_def ws_connect_def connect_raw_def)

definition demo_dead_env :: "ctr_state route_env" where
  "demo_dead_env = demo_env\<lparr>env_nets := (\<lambda>i. if i = 0 then demo_gone else demo_dead)\<rparr>"

lemma demo_selects:
  "selects_route demo_dead_env demo_cfg (demo_request (TargetV6 demo_v6) (demo_init 2 @ tail)) g (2, False)"
  unfolding selects_route_def
  by (rule exI [of _ "TargetV6 demo_v6"], rule exI [of _ 443], rule exI [of _ "demo_init 2"], rule exI [of _ tail])
    (simp add: demo_asks [unfolded demo_sel] demo_init demo_v6_telegram demo_not_http resolve_telegram_init_def demo_dead_env_def demo_sel info_of_raw_2)

lemma demo_dead_attempt:
  "connect_ws_route (env_nets demo_dead_env) demo_cfg 2 False = Ok \<lparr>att_client = None, all_404 = False\<rparr>"
  by (simp add: connect_ws_route_def ws_domains_def demo_dead_env_def demo_gone_connect demo_dead_connect)

theorem unavailable_route_refuses_next_client_witness:
  "fst (route_client demo_dead_env demo_cfg 59999 (demo_request (TargetV6 demo_v6) (demo_init 2 @ [7]))
     (snd (route_client demo_dead_env demo_cfg 0 (demo_request (TargetV6 demo_v6) (demo_init 2 @ [])) demo_globals)))
   = RouteCooldown"
proof -
  let ?c = "route_client demo_dead_env demo_cfg 0 (demo_request (TargetV6 demo_v6) (demo_init 2 @ [])) demo_globals"
  have n: "env_nets demo_dead_env = (\<lambda>i. if i = 0 then demo_gone else demo_dead)" by (simp add: demo_dead_env_def)
  have "fst (begin_probe (2, False) 0 (backoff demo_globals)) = ProbeNow"
    by (simp add: demo_sel begin_probe_decision backoff_default_def)
  with route_begin_selected [OF demo_selects, of 0 "[]" demo_globals] obtain rd g1
    where rd: "route_begin demo_dead_env demo_cfg 0 (demo_request (TargetV6 demo_v6) (demo_init 2 @ [])) demo_globals = (Inr rd, g1)"
      "rd_key rd = (2, False)"
    by (cases "route_begin demo_dead_env demo_cfg 0 (demo_request (TargetV6 demo_v6) (demo_init 2 @ [])) demo_globals") auto
  from rd have "?c = (RouteUnavailable, snd ?c)" by (simp add: route_client_def route_finish_def demo_dead_attempt)
  from unavailable_route_refuses_next_client [OF demo_selects this demo_selects, of 59999]
  show ?thesis by (auto simp: n demo_dead_connect ws_domains_def)
qed

theorem resolve_telegram_init_cases_witness:
  "\<exists>r. resolve_telegram_init (ctr_api demo_block) [demo_v6 \<mapsto> \<lparr>e_dc = 4, e_is_media = True\<rparr>] (ipv6_to_string demo_v6) (demo_init 0) = Some r
    \<and> patched r \<and> info r = \<lparr>i_dc = Some 4, i_is_media = True\<rparr>"
proof -
  let ?c = "[demo_v6 \<mapsto> \<lparr>e_dc = 4, e_is_media = True\<rparr>]"
  have "cache_ok ?c" by (simp add: cache_ok_def valid_entry_def)
  moreover have "or_static (ipv6_to_string demo_v6) (learned_ipv6_entry (ipv6_to_string demo_v6) ?c)
      = Some (Some \<lparr>e_dc = 4, e_is_media = True\<rparr>)" by (simp add: or_static_def learned_ipv6_entry_def)
  ultimately show ?thesis
    using resolve_telegram_init_cases [of "demo_init 0" demo_block ?c "ipv6_to_string demo_v6"]
    by (auto simp: demo_init info_of_raw_0 known_tag_def)
qed

end
