(* ===== verification/Listen.thy ===== *)
theory Listen
  imports Std_Net Ascii_Text Io_Stream
begin

text \<open>
  Listening sockets (\<open>runtime/listen.rs\<close>). A system call is an entry of a log, in the order
  of the calls; the operating system is a function from the log so far and the next call to
  the error of that call, if any. Calls behind \<open>OpSocket\<close> concern the socket it made. A
  listener is represented by its address. Resolving a host name (\<open>to_socket_addrs\<close>) is the
  platform's and a parameter. Dropping sockets on an error is left out.
\<close>

datatype socket_op =
    OpSocket bool
  | OpReuseAddress
  | OpOnlyV6 bool
  | OpBind socket_addr
  | OpListen nat
  | OpNonblocking
  | OpRegister

type_synonym os_answer = "socket_op list \<Rightarrow> socket_op \<Rightarrow> io_error option"

type_synonym resolver = "string \<Rightarrow> u16 \<Rightarrow> io_error + socket_addr list"

definition syscall :: "os_answer \<Rightarrow> socket_op \<Rightarrow> (socket_op list, unit, io_error) io" where
  "syscall os call = (\<lambda>log. (case os log call of None \<Rightarrow> Ok () | Some e \<Rightarrow> Err e, log @ [call]))"

definition normalize_host :: "string \<Rightarrow> string" where
  "normalize_host h =
     (case strip_prefix_char CHR ''['' h of
        None \<Rightarrow> h
      | Some rest \<Rightarrow> (case strip_suffix_char CHR '']'' rest of None \<Rightarrow> h | Some inner \<Rightarrow> inner))"

definition host_is_unspecified :: "string \<Rightarrow> bool" where
  "host_is_unspecified h =
     (case ip_from_str (normalize_host h) of None \<Rightarrow> False | Some ip \<Rightarrow> ip_is_unspecified ip)"

fun int_error_text :: "int_error \<Rightarrow> string" where
  "int_error_text EmptyInt = ''cannot parse integer from empty string''"
| "int_error_text InvalidDigit = ''invalid digit found in string''"
| "int_error_text PosOverflow = ''number too large to fit in target type''"

definition split_host_port :: "string \<Rightarrow> io_error + string \<times> u16" where
  "split_host_port addr =
     (case socket_addr_from_str addr of
        Some parsed \<Rightarrow> Inr (ip_to_string (sa_ip parsed), sa_port parsed)
      | None \<Rightarrow>
          (case rsplit_once CHR '':'' addr of
             None \<Rightarrow> Inl (InvalidInput (''invalid socket address: '' @ addr))
           | Some (h, p) \<Rightarrow>
               (case parse_u16 p of
                  Inl err \<Rightarrow> Inl (InvalidInput (''invalid port in address '' @ addr @ '': '' @ int_error_text err))
                | Inr port \<Rightarrow> Inr (normalize_host h, port))))"

definition bind_socket :: "os_answer \<Rightarrow> socket_addr \<Rightarrow> bool \<Rightarrow> (socket_op list, unit, io_error) io" where
  "bind_socket os addr v6_only =
     io_bind (syscall os (OpSocket (sa_is_ipv6 addr))) (\<lambda>_.
     io_bind (syscall os OpReuseAddress) (\<lambda>_.
     io_bind (if sa_is_ipv6 addr then syscall os (OpOnlyV6 v6_only) else io_ok ()) (\<lambda>_.
     io_bind (syscall os (OpBind addr)) (\<lambda>_.
     io_bind (syscall os (OpListen 4096)) (\<lambda>_.
     syscall os OpNonblocking)))))"

fun bind_each ::
    "os_answer \<Rightarrow> socket_addr set \<Rightarrow> (socket_addr \<times> bool) list \<Rightarrow> (socket_op list, socket_addr list, io_error) io" where
  "bind_each os seen [] = io_ok []"
| "bind_each os seen ((addr, v6_only) # specs) =
     (if addr \<in> seen then bind_each os seen specs
      else io_bind (bind_socket os addr v6_only) (\<lambda>_.
           io_bind (syscall os OpRegister) (\<lambda>_.
           io_bind (bind_each os (insert addr seen) specs) (\<lambda>listeners. io_ok (addr # listeners)))))"

definition bind_specs :: "resolver \<Rightarrow> string \<Rightarrow> u16 \<Rightarrow> io_error + (socket_addr \<times> bool) list" where
  "bind_specs resolve h p =
     (let normalized = normalize_host h in
      if host_is_unspecified normalized then Inr [(SocketV4 0 p, False), (SocketV6 0 p 0 0, True)]
      else map_sum id (map (\<lambda>addr. (addr, sa_is_ipv6 addr))) (resolve normalized p))"

definition bind_host ::
    "os_answer \<Rightarrow> resolver \<Rightarrow> string \<Rightarrow> u16 \<Rightarrow> (socket_op list, socket_addr list, io_error) io" where
  "bind_host os resolve h p =
     (case bind_specs resolve h p of
        Inl e \<Rightarrow> io_err e
      | Inr specs \<Rightarrow>
          if specs = []
          then io_err (AddrNotAvailable (''no addresses resolved for '' @ h @ '':'' @ show_nat (unat p)))
          else bind_each os {} specs)"

section \<open>Splitting addresses\<close>

lemma read_port_show: "read_port (CHR '':'' # show_nat (unat p)) = Some (p, [])"
proof -
  have "unat p < 65536" using unsigned_less [of p] by simp
  then have "read_number 10 65536 None True (show_nat (unat p) @ []) = Some (unat p, [])"
    by (intro read_number_show) simp_all
  then show ?thesis by (simp add: read_port_def read_given_char_def strip_prefix_char_def)
qed

lemma socket_addr_v4_text:
  "socket_addr_from_str (ipv4_to_string a @ CHR '':'' # show_nat (unat p)) = Some (SocketV4 a p)"
  by (simp add: socket_addr_from_str_def parse_with_def read_socket_addr_v4_def read_ipv4_addr_show read_port_show)

lemma show_nat_no_dot: "CHR ''.'' \<notin> set (show_nat n)"
  using show_nat_chars [of "CHR ''.''" n] by auto

lemma socket_addr_v6_text:
  "socket_addr_from_str (''['' @ ipv6_to_string a @ '']:'' @ show_nat (unat p)) = Some (SocketV6 a p 0 0)"
proof -
  have "ends_addr ('']:'' @ show_nat (unat p))" by (simp add: ends_addr_def show_nat_no_dot)
  from read_ipv6_addr_rest [OF this, of a]
  have v6: "read_ipv6_addr (ipv6_to_string a @ CHR '']'' # CHR '':'' # show_nat (unat p))
      = Some (a, CHR '']'' # CHR '':'' # show_nat (unat p))" by simp
  have "no_digit 10 (CHR ''['' # s)" for s by (simp add: no_digit_def to_digit_def)
  then have v4: "read_socket_addr_v4 (CHR ''['' # s) = None" for s
    by (simp add: read_socket_addr_v4_def read_ipv4_addr_no_digit)
  have "read_scope_id (CHR '']'' # s) = None" for s
    by (simp add: read_scope_id_def read_given_char_def strip_prefix_char_def)
  then show ?thesis
    by (simp add: socket_addr_from_str_def parse_with_def v4 read_socket_addr_v6_def v6 read_given_char_def
        strip_prefix_char_def read_port_show)
qed

text \<open>The usual text of an address with a port: IPv6 addresses are bracketed.\<close>

fun host_port_text :: "ip_addr \<Rightarrow> u16 \<Rightarrow> string" where
  "host_port_text (V4 a) p = ipv4_to_string a @ CHR '':'' # show_nat (unat p)"
| "host_port_text (V6 a) p = ''['' @ ipv6_to_string a @ '']:'' @ show_nat (unat p)"

text \<open>
  Splitting an address with a port inverts its text form for both families: the host is
  the plain text of the IP address, without brackets, and the port is the number.
\<close>

theorem split_host_port_roundtrip: "split_host_port (host_port_text a p) = Inr (ip_to_string a, p)"
  by (cases a) (simp_all add: split_host_port_def socket_addr_v4_text socket_addr_v6_text [simplified])

section \<open>Binding\<close>

text \<open>The calls that make one listener.\<close>

definition listener_ops :: "socket_addr \<Rightarrow> socket_op list" where
  "listener_ops addr = [OpSocket (sa_is_ipv6 addr), OpReuseAddress]
     @ (if sa_is_ipv6 addr then [OpOnlyV6 True] else [])
     @ [OpBind addr, OpListen 4096, OpNonblocking, OpRegister]"

text \<open>A sequence of calls up to and including the first that fails.\<close>

fun syscalls :: "os_answer \<Rightarrow> socket_op list \<Rightarrow> (socket_op list, unit, io_error) io" where
  "syscalls os [] = io_ok ()"
| "syscalls os (c # cs) = io_bind (syscall os c) (\<lambda>_. syscalls os cs)"

lemma io_bind_io_ok [simp]: "io_bind m io_ok = m"
  by (rule ext) (simp add: io_bind_def split: prod.split outcome.split)

lemma io_ok_bind [simp]: "io_bind (io_ok a) f = f a"
  by (rule ext) simp

lemma syscalls_append: "syscalls os (xs @ ys) = io_bind (syscalls os xs) (\<lambda>_. syscalls os ys)"
  by (induction xs) (simp_all add: io_bind_assoc)

lemma bind_socket_ops:
  "io_bind (bind_socket os addr (sa_is_ipv6 addr)) (\<lambda>_. io_bind (syscall os OpRegister) f)
     = io_bind (syscalls os (listener_ops addr)) (\<lambda>_. f ())"
proof -
  have "f = (\<lambda>_. f ())" by (rule ext) simp
  then show ?thesis
    by (cases "sa_is_ipv6 addr") (simp_all add: bind_socket_def listener_ops_def io_bind_assoc)
qed

text \<open>The elements of a list in the order of their first occurrence.\<close>

definition first_occurrences :: "'a list \<Rightarrow> 'a list" where
  "first_occurrences xs = rev (remdups (rev xs))"

fun unseen :: "'a set \<Rightarrow> 'a list \<Rightarrow> 'a list" where
  "unseen seen [] = []"
| "unseen seen (x # xs) = (if x \<in> seen then unseen seen xs else x # unseen (insert x seen) xs)"

lemma unseen_snoc: "unseen seen (xs @ [x]) = unseen seen xs @ (if x \<in> seen \<union> set xs then [] else [x])"
  by (induction xs arbitrary: seen) auto

lemma unseen_first_occurrences: "unseen {} xs = first_occurrences xs"
  by (induction xs rule: rev_induct) (simp_all add: unseen_snoc first_occurrences_def)

lemma bind_each_ops:
  "\<forall>s \<in> set specs. snd s = sa_is_ipv6 (fst s) \<Longrightarrow>
   bind_each os seen specs = io_bind (syscalls os (concat (map listener_ops (unseen seen (map fst specs)))))
     (\<lambda>_. io_ok (unseen seen (map fst specs)))"
proof (induction os seen specs rule: bind_each.induct)
  case (2 os seen addr v6 specs)
  then have "v6 = sa_is_ipv6 addr" by simp
  with 2 show ?case by (simp add: bind_socket_ops syscalls_append io_bind_assoc del: io_ok_run)
qed (simp del: io_ok_run)

lemma bind_specs_v6: "bind_specs resolve h p = Inr specs \<Longrightarrow> \<forall>s \<in> set specs. snd s = sa_is_ipv6 (fst s)"
  by (cases "resolve (normalize_host h) p") (auto simp: bind_specs_def Let_def split: if_splits)

text \<open>
  C31. Binding a host is equivalent to one flat sequence of system calls that stops at the
  first failure: every address the host stands for is bound once, in the order of first
  occurrence, with address reuse set before binding, an IPv6 listener always restricted to
  IPv6, and the backlog 4096. A wildcard host, with or without brackets, stands for the
  wildcard addresses of both families; other hosts for what the resolver answers, whose
  error or empty answer is returned before any socket is made.
\<close>

theorem bind_host_flat:
  "bind_host os resolve h p =
     (let addrs = (if host_is_unspecified (normalize_host h) then Inr [SocketV4 0 p, SocketV6 0 p 0 0]
                   else resolve (normalize_host h) p)
      in case addrs of
           Inl e \<Rightarrow> io_err e
         | Inr as \<Rightarrow>
             if as = [] then io_err (AddrNotAvailable (''no addresses resolved for '' @ h @ '':'' @ show_nat (unat p)))
             else io_bind (syscalls os (concat (map listener_ops (first_occurrences as))))
                    (\<lambda>_. io_ok (first_occurrences as)))"
proof (cases "host_is_unspecified (normalize_host h)")
  case True
  then have "bind_specs resolve h p = Inr [(SocketV4 0 p, False), (SocketV6 0 p 0 0, True)]"
    by (simp add: bind_specs_def)
  with True show ?thesis
    by (simp add: bind_host_def bind_each_ops Let_def del: bind_each.simps flip: unseen_first_occurrences)
next
  case False
  then have "bind_specs resolve h p = map_sum id (map (\<lambda>a. (a, sa_is_ipv6 a))) (resolve (normalize_host h) p)"
    by (simp add: bind_specs_def)
  with False show ?thesis
    by (cases "resolve (normalize_host h) p")
      (simp_all add: bind_host_def bind_each_ops Let_def comp_def flip: unseen_first_occurrences)
qed

end
