(* ===== verification/Server.thy ===== *)
theory Server
  imports Listen Routing
begin

text \<open>
  The server (\<open>runtime/server.rs\<close>) and the health endpoint (\<open>modules/health.rs\<close>). What a
  listener accepts is a list of events: a connection or an error of \<open>accept\<close>; where the list
  ends, nothing more happens and the loop waits. Every accepted client runs in a task of its
  own. The tasks are a step relation on the state they share: a client up to the decision of
  the gate is one step, since it works on its own stream until then, and the end of its
  connection attempts is another one.
\<close>

type_synonym accept_event = "io_error + stream"

section \<open>The proxy\<close>

text \<open>The accepted clients are handed to tasks; the first error of \<open>accept\<close> ends the loop.\<close>

fun accept_loop :: "accept_event list \<Rightarrow> (unit, io_error) outcome \<times> stream list" where
  "accept_loop [] = (Pending, [])"
| "accept_loop (Inl e # events) = (Err e, [])"
| "accept_loop (Inr s # events) = (case accept_loop events of (r, spawned) \<Rightarrow> (r, s # spawned))"

text \<open>
  \<open>join_next\<close> returns the result of the loop that ends first; as a loop only ends at an error,
  the loops of all listeners together are one loop over their events in order of time.
\<close>

definition run_server ::
    "os_answer \<Rightarrow> resolver \<Rightarrow> cli_config \<Rightarrow> (socket_addr \<times> accept_event) list \<Rightarrow> socket_op list
      \<Rightarrow> (unit, io_error) outcome \<times> (routed_config \<times> stream) list \<times> socket_op list" where
  "run_server os resolve cfg events log =
     (case routed_config_try_from cfg of
        Inl err \<Rightarrow> (Err (InvalidInput err), [], log)
      | Inr rc \<Rightarrow>
          (case bind_host os resolve (cli_host cfg) (cli_port cfg) log of
             (Ok listeners, log') \<Rightarrow>
               (case accept_loop (map snd (filter (\<lambda>ev. fst ev \<in> set listeners) events)) of
                  (r, spawned) \<Rightarrow> (r, map (Pair rc) spawned, log'))
           | (Err e, log') \<Rightarrow> (Err e, [], log')
           | (Panic p, log') \<Rightarrow> (Panic p, [], log')
           | (Pending, log') \<Rightarrow> (Pending, [], log')))"

section \<open>The health endpoint\<close>

definition HEALTH_RESPONSE :: bytes where
  "HEALTH_RESPONSE = bytes_of (''HTTP/1.1 200 OK'' @ [CHR 0x0D, CHR 0x0A] @ ''content-length:2'' @ [CHR 0x0D, CHR 0x0A]
     @ ''content-type:text/plain'' @ [CHR 0x0D, CHR 0x0A, CHR 0x0D, CHR 0x0A] @ ''OK'')"

text \<open>Every connection is answered; an error of \<open>accept\<close> is skipped after a pause.\<close>

fun serve_health_listener :: "accept_event list \<Rightarrow> stream list" where
  "serve_health_listener [] = []"
| "serve_health_listener (Inr conn # events) =
     snd (io_ignore (write_all HEALTH_RESPONSE) conn :: (unit, io_error) outcome \<times> stream) # serve_health_listener events"
| "serve_health_listener (Inl e # events) = serve_health_listener events"

definition serve_health ::
    "os_answer \<Rightarrow> resolver \<Rightarrow> string \<Rightarrow> (socket_addr \<Rightarrow> accept_event list) \<Rightarrow> socket_op list
      \<Rightarrow> (socket_addr \<times> stream list) list \<times> socket_op list" where
  "serve_health os resolve addr events log =
     (case split_host_port addr of
        Inl e \<Rightarrow> ([], log)
      | Inr (h, p) \<Rightarrow>
          (case bind_host os resolve h p log of
             (Ok listeners, log') \<Rightarrow> (map (\<lambda>l. (l, serve_health_listener (events l))) listeners, log')
           | (_, log') \<Rightarrow> ([], log')))"

section \<open>Concurrent clients of the gate\<close>

text \<open>
  The shared tables, the clock, the clients that are connecting, and a record of what their
  attempts have reported so far.
\<close>

record server =
  globals :: route_globals
  srv_clock :: nat
  connecting :: "route_ready list"
  reported_failures :: "(ws_key \<times> nat) set"
  reported_gone :: "ws_key set"

definition server_init :: server where
  "server_init = \<lparr>globals = \<lparr>backoff = backoff_default, ipv6_cache = Map.empty\<rparr>, srv_clock = 0, connecting = [],
     reported_failures = {}, reported_gone = {}\<rparr>"

text \<open>What the end of the attempts of a client reports.\<close>

definition attempt_failed :: "(ws_connect_attempt, ws_error) outcome \<Rightarrow> bool" where
  "attempt_failed att \<longleftrightarrow> (\<exists>a. att = Ok a \<and> att_client a = None \<and> \<not> all_404 a)"

definition attempt_gone :: "(ws_connect_attempt, ws_error) outcome \<Rightarrow> bool" where
  "attempt_gone att \<longleftrightarrow> (\<exists>a. att = Ok a \<and> att_client a = None \<and> all_404 a)"

inductive server_step :: "'c cipher_api \<Rightarrow> server \<Rightarrow> server \<Rightarrow> bool" for C where
  wait: "server_step C v (v\<lparr>srv_clock := srv_clock v + d\<rparr>)"
| turned_away: "env_cipher env = C \<Longrightarrow> route_begin env cfg (srv_clock v) s (globals v) = (Inl out, g) \<Longrightarrow>
    server_step C v (v\<lparr>globals := g\<rparr>)"
| admit: "env_cipher env = C \<Longrightarrow> route_begin env cfg (srv_clock v) s (globals v) = (Inr rd, g) \<Longrightarrow>
    server_step C v (v\<lparr>globals := g, connecting := rd # connecting v\<rparr>)"
| finish: "env_cipher env = C \<Longrightarrow> rd \<in> set (connecting v) \<Longrightarrow>
    att = connect_ws_route (env_nets env) cfg (fst (rd_key rd)) (snd (rd_key rd)) \<Longrightarrow> att \<noteq> Pending \<Longrightarrow>
    route_finish env rd att (globals v) = (out, g) \<Longrightarrow>
    server_step C v (v\<lparr>globals := g, connecting := remove1 rd (connecting v),
      reported_failures := (if attempt_failed att then insert (rd_key rd, rd_now rd) (reported_failures v)
                            else reported_failures v),
      reported_gone := (if attempt_gone att then insert (rd_key rd) (reported_gone v) else reported_gone v)\<rparr>)"

inductive server_reachable :: "'c cipher_api \<Rightarrow> server \<Rightarrow> bool" for C where
  start: "server_reachable C server_init"
| step: "server_reachable C v \<Longrightarrow> server_step C v v' \<Longrightarrow> server_reachable C v'"

text \<open>The gate's view of a server: what the abstract system of \<open>Backoff\<close> is about.\<close>

definition gate_view :: "server \<Rightarrow> gate_sys" where
  "gate_view v = \<lparr>gate_of = backoff (globals v), clock = srv_clock v,
     inflight = image_mset (\<lambda>rd. (rd_key rd, rd_now rd)) (mset (connecting v)),
     failures = reported_failures v, gone = reported_gone v\<rparr>"

text \<open>What a client's first step does to the gate: nothing, or one question to it.\<close>

definition asks_gate :: "nat \<Rightarrow> ws_backoff \<Rightarrow> 'c route_outcome + route_ready \<Rightarrow> ws_backoff \<Rightarrow> bool" where
  "asks_gate now b x b' \<longleftrightarrow> (b' = b \<and> (\<exists>out. x = Inl out))
     \<or> (\<exists>k. b' = snd (begin_probe k now b)
          \<and> (if admitted (fst (begin_probe k now b)) then \<exists>rd. x = Inr rd \<and> rd_key rd = k \<and> rd_now rd = now
              else \<exists>out. x = Inl out))"

lemma asks_gate_none [simp]: "asks_gate now b (Inl out) b"
  by (simp add: asks_gate_def)

lemma route_resolved_gate:
  assumes "route_resolved env now s h p r g = (x, g')"
  shows "asks_gate now (backoff g) x (backoff g')"
proof (cases "is_http_transport (packet r) \<or> i_dc (info r) = None")
  case True
  with assms show ?thesis by (auto simp: route_resolved_def Let_def split: if_splits)
next
  case False
  then obtain dc where dc: "i_dc (info r) = Some dc" "\<not> is_http_transport (packet r)" by blast
  let ?k = "(dc, i_is_media (info r))"
  from assms dc have "backoff g' = snd (begin_probe ?k now (backoff g))
      \<and> (if admitted (fst (begin_probe ?k now (backoff g))) then \<exists>rd. x = Inr rd \<and> rd_key rd = ?k \<and> rd_now rd = now
          else \<exists>out. x = Inl out)"
    by (auto simp: route_resolved_def Let_def case_prod_beta admitted_def split: ws_decision.splits)
  then show ?thesis unfolding asks_gate_def by blast
qed

lemma route_begin_gate:
  assumes "route_begin env cfg now s g = (x, g')"
  shows "asks_gate now (backoff g) x (backoff g')"
  using assms unfolding route_begin_def
  by (simp split: prod.splits outcome.splits socks_command.splits option.splits bool.splits)
    (auto dest: route_resolved_gate)

lemma route_finish_gate:
  assumes "route_finish env rd att g = (out, g')" "att \<noteq> Pending"
  shows "backoff g' = (if attempt_failed att then record_failure (rd_key rd) (rd_now rd) (backoff g)
    else if attempt_gone att then disable_404 (rd_key rd) (backoff g)
    else case att of Ok a \<Rightarrow> clear_probe (rd_key rd) (backoff g) | _ \<Rightarrow> backoff g)"
  using assms by (cases att) (auto simp: route_finish_def attempt_failed_def attempt_gone_def split: option.splits)

text \<open>The simulation: every step of the server is at most one step of the gate system.\<close>

lemma server_step_simulates:
  assumes "server_step C v v'"
  shows "gate_view v' = gate_view v \<or> gate_step (gate_view v) (gate_view v')"
  using assms
proof (induction rule: server_step.induct)
  case (wait v d)
  then show ?case using gate_step.tick [of "gate_view v" d] by (simp add: gate_view_def)
next
  case (turned_away env cfg v s out g)
  from route_begin_gate [OF turned_away(2)] consider (same) "backoff g = backoff (globals v)"
    | (asked) k where "backoff g = snd (begin_probe k (srv_clock v) (backoff (globals v)))"
        "\<not> admitted (fst (begin_probe k (srv_clock v) (backoff (globals v))))"
    by (auto simp: asks_gate_def split: if_splits)
  then show ?case
  proof cases
    case same
    then show ?thesis by (simp add: gate_view_def)
  next
    case asked
    then show ?thesis
      using gate_step.arrive [of k "gate_view v" "fst (begin_probe k (srv_clock v) (backoff (globals v)))" "backoff g"]
      by (simp add: gate_view_def)
  qed
next
  case (admit env cfg v s rd g)
  let ?d = "fst (begin_probe (rd_key rd) (srv_clock v) (backoff (globals v)))"
  from route_begin_gate [OF admit(2)]
  have "backoff g = snd (begin_probe (rd_key rd) (srv_clock v) (backoff (globals v)))" "admitted ?d"
    "rd_now rd = srv_clock v"
    by (auto simp: asks_gate_def split: if_splits)
  then show ?case
    using gate_step.arrive [of "rd_key rd" "gate_view v" ?d "backoff g"] by (simp add: gate_view_def)
next
  case (finish env rd v att cfg out g)
  let ?s = "gate_view v"
  have i: "(rd_key rd, rd_now rd) \<in># inflight ?s" using finish(2) by (auto simp: gate_view_def)
  have m: "image_mset (\<lambda>rd. (rd_key rd, rd_now rd)) (mset (remove1 rd (connecting v)))
      = inflight ?s - {#(rd_key rd, rd_now rd)#}"
    using finish(2) by (simp add: gate_view_def image_mset_Diff)
  have excl: "\<not> (attempt_failed att \<and> attempt_gone att)" by (auto simp: attempt_failed_def attempt_gone_def)
  from route_finish_gate [OF finish(5,4)] show ?case
    using gate_step.fail [OF i] gate_step.all_404 [OF i] gate_step.succeed [OF i] gate_step.vanish [OF i] m excl
    by (cases "attempt_failed att"; cases "attempt_gone att"; cases att)
      (simp_all add: gate_view_def)
qed

lemma server_reachable_gate: "server_reachable C v \<Longrightarrow> gate_reachable (gate_view v)"
proof (induction rule: server_reachable.induct)
  case start
  then show ?case using gate_reachable.init by (simp add: gate_view_def server_init_def gate_init_def)
next
  case (step v v')
  then show ?case using server_step_simulates gate_reachable.step by metis
qed
section \<open>Properties\<close>

text \<open>
  C5. The server refines the gate system: for any number of clients whose steps interleave
  in any order, what happens to the gate's table is a run of the abstract system, in which
  each admitted client reports exactly once; no step of a client changes the table in
  another way.
\<close>

theorem server_refines_gate:
  assumes "server_reachable C v" "server_step C v v'"
  shows "gate_reachable (gate_view v) \<and> (gate_view v' = gate_view v \<or> gate_step (gate_view v) (gate_view v'))"
  using assms server_reachable_gate server_step_simulates by blast

text \<open>
  C6. In every reachable state of the server, with any number of concurrent clients, a client
  is refused only with cause: with a cooldown only if the attempts of an earlier client of the
  same route, that arrived less than 60 seconds ago, failed; as disabled only if all hosts of
  the route have answered 404 to a client.
\<close>

theorem refused_client_has_cause:
  assumes "server_reachable C v" "selects_route env cfg s (globals v) key"
    and "fst (route_begin env cfg now s (globals v)) = Inl out"
  shows "(out = RouteCooldown \<and> (\<exists>t. (key, t) \<in> reported_failures v \<and> now < t + 60000))
    \<or> (out = RouteDisabled \<and> key \<in> reported_gone v)"
  using route_begin_selected [OF assms(2), of now] assms(3)
    refusal_cause [OF server_reachable_gate [OF assms(1)], of key now]
  by (auto simp: gate_view_def split: ws_decision.splits)

text \<open>
  C7. Routes come back: 60 seconds after the last event, a client of any route whose hosts
  have never all answered 404 is let through to connect, whatever the clients before did and
  however their steps interleaved.
\<close>

theorem client_admitted_after_cooldown:
  assumes "server_reachable C v" "selects_route env cfg s (globals v) key"
    and "key \<notin> reported_gone v" "srv_clock v + 60000 \<le> now"
  shows "\<exists>rd. fst (route_begin env cfg now s (globals v)) = Inr rd \<and> rd_key rd = key"
  using route_begin_selected [OF assms(2), of now]
    route_recovery [OF server_reachable_gate [OF assms(1)], of key now] assms(3,4)
  by (auto simp: gate_view_def)

text \<open>The outcomes in which bytes of the client reach a third party.\<close>

fun relayed :: "'c route_outcome \<Rightarrow> bool" where
  "relayed (PassedThrough r) = True"
| "relayed (UnknownDc r) = (r \<noteq> None)"
| "relayed (Bridged r) = True"
| "relayed _ = False"

text \<open>
  C4. With accounts configured, nothing is relayed for a client that has not logged in:
  whatever bytes a client sends and however its writes fail, if the server relays anything
  for it, then its bytes start with a complete SOCKS exchange whose login is one of the
  configured accounts.
\<close>

theorem only_logged_in_clients_served:
  assumes "routed_config_try_from cfg = Inr rc" "parse_socks_auth (cli_socks_users cfg) = Inr (Some a)"
    and "relayed (fst (route_client env rc now s g))"
  shows "\<exists>methods u p t port rest.
    rx s = client_exchange (Some a) methods u p t port @ rest \<and> login_ok (Some a) u p"
proof -
  have auth: "socks_auth rc = Some a" using assms(1,2) by (auto simp: routed_config_try_from_def)
  obtain r s1 where h: "handle_socks5_handshake (Some a) s = (r, s1)" by fastforce
  with assms(3) auth obtain c where "r = Ok c"
    by (cases r) (auto simp: route_client_def route_begin_def)
  with handshake_OkD [of "Some a" s c s1] h show ?thesis by blast
qed

text \<open>
  C32. An error of \<open>accept\<close> ends the accept loop, and with it the server, while the health
  endpoint survives it: only the clients accepted before the error are handed to tasks; the
  health listener answers all connections, before and after.
\<close>

theorem accept_error_ends_proxy:
  "accept_loop (map Inr ss @ Inl e # evs) = (Err e, ss)
    \<and> serve_health_listener (map Inr ss @ Inl e # evs) = serve_health_listener (map Inr ss) @ serve_health_listener evs"
proof
  show "accept_loop (map Inr ss @ Inl e # evs) = (Err e, ss)" by (induction ss) simp_all
  show "serve_health_listener (map Inr ss @ Inl e # evs) = serve_health_listener (map Inr ss) @ serve_health_listener evs"
    by (induction ss) simp_all
qed

section \<open>Closed instances\<close>

text \<open>A run in which one client arrives at time 0 and its attempts fail.\<close>

lemma demo_failed_server:
  obtains v where "server_reachable (ctr_api demo_block) v" "((2, False), 0) \<in> reported_failures v"
    "fst (begin_probe (2, False) 59999 (backoff (globals v))) = Cooldown"
proof -
  let ?C = "ctr_api demo_block" and ?s = "demo_request (TargetV6 demo_v6) (demo_init 2 @ [])"
  have C: "env_cipher demo_dead_env = ?C" by (simp add: demo_dead_env_def demo_sel)
  have "fst (begin_probe (2, False) 0 (backoff (globals server_init))) = ProbeNow"
    by (simp add: server_init_def begin_probe_decision backoff_default_def)
  with route_begin_selected [OF demo_selects, of 0 "[]" "globals server_init"] obtain rd g1
    where b: "route_begin demo_dead_env demo_cfg (srv_clock server_init) ?s (globals server_init) = (Inr rd, g1)"
      and rd: "rd_key rd = (2, False)" "rd_now rd = 0"
    by (cases "route_begin demo_dead_env demo_cfg 0 ?s (globals server_init)") (auto simp: server_init_def)
  let ?v1 = "server_init\<lparr>globals := g1, connecting := [rd]\<rparr>"
  have 1: "server_reachable ?C ?v1"
    using server_reachable.step [OF server_reachable.start server_step.admit [OF C b]] by (simp add: server_init_def)
  let ?att = "connect_ws_route (env_nets demo_dead_env) demo_cfg (fst (rd_key rd)) (snd (rd_key rd))"
  have att: "?att = Ok \<lparr>att_client = None, all_404 = False\<rparr>" by (simp add: rd demo_dead_attempt)
  have f: "route_finish demo_dead_env rd ?att g1 = (RouteUnavailable, record_ws_failure (2, False) 0 g1)"
    unfolding att by (simp add: route_finish_def rd)
  have 2: "server_step ?C ?v1 (?v1\<lparr>globals := record_ws_failure (2, False) 0 g1, connecting := [],
      reported_failures := {((2, False), 0)}\<rparr>)"
    using server_step.finish [OF C, of rd ?v1 ?att demo_cfg RouteUnavailable] f unfolding att
    by (simp add: demo_dead_attempt attempt_failed_def attempt_gone_def rd server_init_def)
  show ?thesis
    by (rule that [OF server_reachable.step [OF 1 2]])
      (simp_all add: gate.start_failed WS_FAILURE_COOLDOWN_def)
qed

theorem refused_client_has_cause_witness:
  "\<exists>v t. server_reachable (ctr_api demo_block) v \<and> ((2, False), t) \<in> reported_failures v \<and> 59999 < t + 60000
    \<and> fst (route_begin demo_dead_env demo_cfg 59999 (demo_request (TargetV6 demo_v6) (demo_init 2 @ [])) (globals v))
        = Inl RouteCooldown"
proof -
  obtain v where v: "server_reachable (ctr_api demo_block) v"
    "fst (begin_probe (2, False) 59999 (backoff (globals v))) = Cooldown"
    by (rule demo_failed_server)
  with route_begin_selected [OF demo_selects, of 59999 "[]" "globals v"]
  have r: "fst (route_begin demo_dead_env demo_cfg 59999 (demo_request (TargetV6 demo_v6) (demo_init 2 @ [])) (globals v))
      = Inl RouteCooldown" by simp
  from refused_client_has_cause [OF v(1) demo_selects r] v(1) r show ?thesis by auto
qed

theorem only_logged_in_clients_served_witness:
  "\<exists>methods u p t port rest.
     client_exchange (Some \<lparr>users = [\<lparr>username = ''bob'', password = ''pass2''\<rparr>]\<rparr>) [2] ''bob'' ''pass2'' (TargetDomain ''a.b'') 80
       = client_exchange (Some \<lparr>users = [\<lparr>username = ''bob'', password = ''pass2''\<rparr>]\<rparr>) methods u p t port @ rest
     \<and> login_ok (Some \<lparr>users = [\<lparr>username = ''bob'', password = ''pass2''\<rparr>]\<rparr>) u p"
proof -
  let ?a = "\<lparr>users = [\<lparr>username = ''bob'', password = ''pass2''\<rparr>]\<rparr>"
  let ?cfg = "\<lparr>cli_host = ''::'', cli_port = 1080, cli_log_level = ''info'', cli_read_timeout_secs = 15,
    cli_connect_timeout_secs = 10, cli_config_file = [], cli_health_addr = [], cli_socks_users = ''bob:pass2''\<rparr>"
  let ?rc = "\<lparr>read_timeout_secs = 15, connect_timeout_secs = 10, socks_auth = Some ?a\<rparr>"
  let ?s = "open_stream (client_exchange (Some ?a) [2] ''bob'' ''pass2'' (TargetDomain ''a.b'') 80) Eof"
  have p: "parse_socks_auth (cli_socks_users ?cfg) = Inr (Some ?a)" by code_simp
  then have rc: "routed_config_try_from ?cfg = Inr ?rc" by (simp add: routed_config_try_from_def)
  have f: "wf_field ''bob''" "wf_field ''pass2''" "wf_target (TargetDomain ''a.b'')" by code_simp+
  then have "asks_for (socks_auth ?rc) (TargetDomain ''a.b'') 80 [] ?s"
    unfolding asks_for_def
    by (intro conjI exI [of _ "[2]"] exI [of _ "''bob''"] exI [of _ "''pass2''"])
      (simp_all add: method_for_def login_ok_def valid_login_def)
  moreover have "is_telegram_ip (target_text (TargetDomain ''a.b'')) = Some False" by code_simp
  ultimately have "relayed (fst (route_client demo_env ?rc 0 ?s demo_globals))"
    by (simp add: route_client_def route_begin_def asks_for_run)
  from only_logged_in_clients_served [OF rc p this] show ?thesis by simp
qed

theorem server_refines_gate_witness:
  "gate_step (gate_view server_init) (gate_view (server_init\<lparr>srv_clock := 7\<rparr>))"
proof -
  have "server_step (ctr_api demo_block) server_init (server_init\<lparr>srv_clock := 7\<rparr>)"
    using server_step.wait [of _ server_init 7] by (simp add: server_init_def)
  from server_refines_gate [OF server_reachable.start this] show ?thesis
    by (auto simp: gate_view_def server_init_def)
qed

theorem client_admitted_after_cooldown_witness:
  "\<exists>rd. fst (route_begin demo_dead_env demo_cfg 60000 (demo_request (TargetV6 demo_v6) (demo_init 2 @ [])) (globals server_init))
      = Inr rd \<and> rd_key rd = (2, False)"
  by (rule client_admitted_after_cooldown [OF server_reachable.start demo_selects]) (simp_all add: server_init_def)
end
