(* ===== verification/Pool_Stats.thy ===== *)
theory Pool_Stats
  imports Backoff Io_Stream "HOL-Library.Multiset"
begin

text \<open>
  The pool of idle WebSocket connections (\<open>modules/pool.rs\<close>) and the traffic counters
  (\<open>modules/stats.rs\<close>). A connection is its stream. The counters are 64 bits wide and
  \<open>fetch_add\<close> wraps; each operation is atomic, so concurrent updates are a sequence of
  operations in some order.
\<close>

section \<open>The pool\<close>

record ws_pool =
  buckets :: "ws_key \<rightharpoonup> stream list"

definition pool_new :: ws_pool where
  "pool_new = \<lparr>buckets = Map.empty\<rparr>"

text \<open>\<open>Vec::pop\<close> and \<open>Vec::push\<close> work at the end of a bucket.\<close>

definition pool_get :: "u8 \<Rightarrow> bool \<Rightarrow> ws_pool \<Rightarrow> stream option \<times> ws_pool" where
  "pool_get dc is_media pool =
     (case buckets pool (dc, is_media) of
        None \<Rightarrow> (None, pool)
      | Some bucket \<Rightarrow>
          if bucket = [] then (None, pool)
          else (Some (last bucket), pool\<lparr>buckets := (buckets pool)((dc, is_media) \<mapsto> butlast bucket)\<rparr>))"

definition return_to_pool :: "u8 \<Rightarrow> bool \<Rightarrow> stream \<Rightarrow> ws_pool \<Rightarrow> ws_pool" where
  "return_to_pool dc is_media c pool =
     (let bucket = (case buckets pool (dc, is_media) of None \<Rightarrow> [] | Some b \<Rightarrow> b)
      in pool\<lparr>buckets := (buckets pool)((dc, is_media) \<mapsto> bucket @ [c])\<rparr>)"

text \<open>A store of items under keys that hands out the item stored last under the key.\<close>

locale keyed_stack =
  fixes take_item :: "'k \<Rightarrow> 's \<Rightarrow> 'v option \<times> 's" and store :: "'k \<Rightarrow> 'v \<Rightarrow> 's \<Rightarrow> 's"
    and contents :: "'s \<Rightarrow> 'k \<Rightarrow> 'v list" and fresh :: 's
  assumes contents_fresh: "contents fresh k = []"
    and contents_store: "contents (store k v s) = (contents s)(k := contents s k @ [v])"
    and take_empty: "contents s k = [] \<Longrightarrow> take_item k s = (None, s)"
    and take_last: "contents s k \<noteq> [] \<Longrightarrow> fst (take_item k s) = Some (last (contents s k))
      \<and> contents (snd (take_item k s)) = (contents s)(k := butlast (contents s k))"
begin

definition store_all :: "'k \<Rightarrow> 'v list \<Rightarrow> 's \<Rightarrow> 's" where
  "store_all k vs s = fold (store k) vs s"

lemma contents_store_all: "contents (store_all k vs s) = (contents s)(k := contents s k @ vs)"
  by (induction vs arbitrary: s) (simp_all add: store_all_def contents_store)

fun take_n :: "nat \<Rightarrow> 'k \<Rightarrow> 's \<Rightarrow> 'v list \<times> 's" where
  "take_n 0 k s = ([], s)"
| "take_n (Suc n) k s =
     (case take_item k s of (None, s') \<Rightarrow> ([], s') | (Some v, s') \<Rightarrow> apfst (Cons v) (take_n n k s'))"

lemma take_n_rev:
  "fst (take_n n k s) = take n (rev (contents s k))
   \<and> contents (snd (take_n n k s)) = (contents s)(k := rev (drop n (rev (contents s k))))"
proof (induction n arbitrary: s)
  case (Suc n)
  show ?case
  proof (cases "contents s k = []")
    case True
    then show ?thesis using take_empty [of s k] by (simp add: fun_upd_idem)
  next
    case False
    then obtain xs x where x: "contents s k = xs @ [x]" by (metis rev_exhaust)
    with take_last [OF False] obtain s' where s': "take_item k s = (Some x, s')" "contents s' = (contents s)(k := xs)"
      by (cases "take_item k s") auto
    show ?thesis using Suc.IH [of s'] by (auto simp: s' x fun_eq_iff)
  qed
qed (simp add: fun_upd_idem)

end

definition pooled :: "ws_pool \<Rightarrow> ws_key \<Rightarrow> stream list" where
  "pooled pool k = (case buckets pool k of None \<Rightarrow> [] | Some b \<Rightarrow> b)"

interpretation pool: keyed_stack "\<lambda>k. pool_get (fst k) (snd k)" "\<lambda>k. return_to_pool (fst k) (snd k)" pooled pool_new
  by unfold_locales
    (auto simp: pooled_def pool_new_def pool_get_def return_to_pool_def Let_def fun_eq_iff split: option.splits)

text \<open>
  The pool returns the connections of a route in the reverse order in which they were
  put back, each exactly once, and routes do not see each other's connections.
\<close>

theorem pool_is_lifo:
  "fst (pool.take_n n k (pool.store_all k cs pool_new)) = take n (rev cs)
    \<and> pooled (snd (pool.take_n n k (pool.store_all k cs pool_new))) = (\<lambda>_. [])(k := rev (drop n (rev cs)))"
proof -
  have "pooled pool_new = (\<lambda>_. [])" by (rule ext) (rule pool.contents_fresh)
  then show ?thesis
    using pool.take_n_rev [of n k "pool.store_all k cs pool_new"] by (simp add: pool.contents_store_all)
qed

section \<open>The counters\<close>

record stats =
  connections_total :: u64
  connections_ws :: u64
  bytes_up :: u64
  bytes_down :: u64

definition stats_new :: stats where
  "stats_new = \<lparr>connections_total = 0, connections_ws = 0, bytes_up = 0, bytes_down = 0\<rparr>"

definition inc_total :: "stats \<Rightarrow> stats" where
  "inc_total s = s\<lparr>connections_total := connections_total s + 1\<rparr>"

definition inc_ws :: "stats \<Rightarrow> stats" where
  "inc_ws s = s\<lparr>connections_ws := connections_ws s + 1\<rparr>"

definition add_bytes_up :: "u64 \<Rightarrow> stats \<Rightarrow> stats" where
  "add_bytes_up n s = s\<lparr>bytes_up := bytes_up s + n\<rparr>"

definition add_bytes_down :: "u64 \<Rightarrow> stats \<Rightarrow> stats" where
  "add_bytes_down n s = s\<lparr>bytes_down := bytes_down s + n\<rparr>"

datatype stat_op = IncTotal | IncWs | BytesUp u64 | BytesDown u64

fun apply_stat :: "stat_op \<Rightarrow> stats \<Rightarrow> stats" where
  "apply_stat IncTotal s = inc_total s"
| "apply_stat IncWs s = inc_ws s"
| "apply_stat (BytesUp n) s = add_bytes_up n s"
| "apply_stat (BytesDown n) s = add_bytes_down n s"

lemma apply_stat_commute: "apply_stat a (apply_stat b s) = apply_stat b (apply_stat a s)"
  by (cases a; cases b) (simp_all add: inc_total_def inc_ws_def add_bytes_up_def add_bytes_down_def algebra_simps)

abbreviation reported_up :: "stat_op \<Rightarrow> u64" where
  "reported_up p \<equiv> (case p of BytesUp n \<Rightarrow> n | _ \<Rightarrow> 0)"

lemma bytes_up_apply: "bytes_up (apply_stat p s) = bytes_up s + reported_up p"
  by (cases p) (simp_all add: inc_total_def inc_ws_def add_bytes_up_def add_bytes_down_def)

text \<open>
  The counters do not depend on how concurrent updates interleave, and the byte counter
  is the sum of the reported bytes modulo 2 to the 64.
\<close>

theorem stats_order_irrelevant:
  assumes "mset ops = mset ops'"
  shows "fold apply_stat ops s = fold apply_stat ops' s
    \<and> bytes_up (fold apply_stat ops s) = bytes_up s + sum_list (map reported_up ops)"
proof
  show "fold apply_stat ops s = fold apply_stat ops' s"
    using fold_multiset_equiv [OF _ assms, of apply_stat] by (simp add: fun_eq_iff apply_stat_commute)
  show "bytes_up (fold apply_stat ops s) = bytes_up s + sum_list (map reported_up ops)"
    by (induction ops arbitrary: s) (simp_all add: bytes_up_apply add.assoc)
qed

theorem stats_order_irrelevant_witness:
  "fold apply_stat [BytesUp (-1), IncTotal, BytesUp 3] stats_new = fold apply_stat [IncTotal, BytesUp 3, BytesUp (-1)] stats_new
    \<and> bytes_up (fold apply_stat [BytesUp (-1), IncTotal, BytesUp 3] stats_new) = 2"
proof -
  let ?a = "[BytesUp (-1), IncTotal, BytesUp 3]" and ?b = "[IncTotal, BytesUp 3, BytesUp (-1)]"
  have "mset ?a = mset ?b" by simp
  moreover have "bytes_up stats_new + sum_list (map reported_up ?a) = 2" by (simp add: stats_new_def)
  moreover note stats_order_irrelevant [OF calculation(1), of stats_new]
  ultimately show ?thesis by (metis (no_types, lifting))
qed

end
