(* ===== verification/Index_Checks.thy ===== *)
theory Index_Checks
  imports Splitter Ws_Handshake "HOL-Library.Monad_Syntax"
begin

text \<open>
  The run-time checks of indexing and slicing. In the other theories \<open>xs ! i\<close> and \<open>slice a b xs\<close>
  are total; in the program \<open>xs[i]\<close> and \<open>xs[a..b]\<close> panic out of bounds. This theory translates
  every routine that indexes or slices at a place computed at run time once more, with each
  access checked: \<open>None\<close> is the panic, and a loop is a \<open>partial_function (option)\<close>, so that it is
  also \<open>None\<close> when it does not end. The lemmas show that each of these translations yields
  \<open>Some\<close> of what the unchecked one yields: the guards of the code are sufficient.

  Accesses to arrays of a fixed size at a constant place (\<open>hdr[1]\<close> of two bytes) are checked by the
  compiler and need no counterpart; \<open>buf[..n]\<close> of the relay is covered by the contract of \<open>read\<close>,
  which returns at most the length of the buffer.
\<close>

section \<open>Checked accesses\<close>

definition item :: "'a list \<Rightarrow> nat \<Rightarrow> 'a option" where
  "item xs i = (if i < length xs then Some (xs ! i) else None)"

definition rng :: "nat \<Rightarrow> nat \<Rightarrow> 'a list \<Rightarrow> 'a list option" where
  "rng a b xs = (if a \<le> b \<and> b \<le> length xs then Some (slice a b xs) else None)"

definition upd :: "'a list \<Rightarrow> nat \<Rightarrow> 'a \<Rightarrow> 'a list option" where
  "upd xs i v = (if i < length xs then Some (xs[i := v]) else None)"

text \<open>A difference of positions: with overflow checks it panics below zero.\<close>

definition usize_sub :: "nat \<Rightarrow> nat \<Rightarrow> nat option" where
  "usize_sub a b = (if b \<le> a then Some (a - b) else None)"

named_theorems in_bounds

lemma item_in [in_bounds]: "i < length xs \<Longrightarrow> item xs i = Some (xs ! i)"
  by (simp add: item_def)

lemma rng_in [in_bounds]: "a \<le> b \<Longrightarrow> b \<le> length xs \<Longrightarrow> rng a b xs = Some (slice a b xs)"
  by (simp add: rng_def)

lemma upd_in [in_bounds]: "i < length xs \<Longrightarrow> upd xs i v = Some (xs[i := v])"
  by (simp add: upd_def)

lemma usize_sub_in [in_bounds]: "b \<le> a \<Longrightarrow> usize_sub a b = Some (a - b)"
  by (simp add: usize_sub_def)

primrec each :: "('a \<Rightarrow> 'b option) \<Rightarrow> 'a list \<Rightarrow> 'b list option" where
  "each f [] = Some []"
| "each f (x # xs) = do { y \<leftarrow> f x; ys \<leftarrow> each f xs; Some (y # ys) }"

lemma each_Some: "\<forall>x \<in> set xs. f x = Some (g x) \<Longrightarrow> each f xs = Some (map g xs)"
  by (induction xs) simp_all

section \<open>The init packet\<close>

definition keystream_checked :: "'c cipher_api \<Rightarrow> bytes \<Rightarrow> bytes option option" where
  "keystream_checked C data = do {
     key \<leftarrow> rng 8 40 data;
     iv \<leftarrow> rng 40 56 data;
     Some (case new_from_slices C key iv of
         None \<Rightarrow> None
       | Some c \<Rightarrow> Some (fst (apply_keystream C c (replicate 64 0))))
   }"

definition decrypt_header_checked :: "'c cipher_api \<Rightarrow> bytes \<Rightarrow> bytes option option" where
  "decrypt_header_checked C data = do {
     ks \<leftarrow> keystream_checked C data;
     case ks of
       None \<Rightarrow> Some None
     | Some stream \<Rightarrow> do {
         plain \<leftarrow> each (\<lambda>i. do { d \<leftarrow> item data (56 + i); k \<leftarrow> item stream (56 + i); Some (d XOR k) }) [0..<8];
         Some (Some plain)
       }
   }"

definition extract_dc_checked :: "'c cipher_api \<Rightarrow> bytes \<Rightarrow> telegram_init_info option" where
  "extract_dc_checked C data =
     (if length data < 64 then Some \<lparr>i_dc = None, i_is_media = False\<rparr>
      else do {
        header \<leftarrow> decrypt_header_checked C data;
        let plain = (case header of None \<Rightarrow> replicate 8 0 | Some p \<Rightarrow> p);
        tag \<leftarrow> rng 0 4 plain;
        let proto = (from_le_bytes tag :: u32);
        if \<not> (proto = 0xEFEFEFEF \<or> proto = 0xEEEEEEEE \<or> proto = 0xDDDDDDDD)
        then Some \<lparr>i_dc = None, i_is_media = False\<rparr>
        else do {
          raw \<leftarrow> rng 4 6 plain;
          let dc_raw = (from_le_bytes raw :: i16);
          let dc = (ucast (unsigned_abs dc_raw) :: u8);
          Some (if 1 \<le> dc \<and> dc \<le> 5 then \<lparr>i_dc = Some dc, i_is_media = sint dc_raw < 0\<rparr>
                else \<lparr>i_dc = None, i_is_media = False\<rparr>)
        }
      })"

definition patch_init_dc_checked :: "'c cipher_api \<Rightarrow> bytes \<Rightarrow> i16 \<Rightarrow> bytes option" where
  "patch_init_dc_checked C data dc =
     (if length data < 64 then Some data
      else do {
        ks \<leftarrow> keystream_checked C data;
        case ks of
          None \<Rightarrow> Some data
        | Some stream \<Rightarrow> do {
            out \<leftarrow> rng 0 64 data;
            let dc_bytes = to_le_bytes 2 dc;
            k60 \<leftarrow> item stream 60; d0 \<leftarrow> item dc_bytes 0;
            out \<leftarrow> upd out 60 (k60 XOR d0);
            k61 \<leftarrow> item stream 61; d1 \<leftarrow> item dc_bytes 1;
            out \<leftarrow> upd out 61 (k61 XOR d1);
            if 64 < length data then do { rest \<leftarrow> rng 64 (length data) data; Some (out @ rest) } else Some out
          }
      })"

section \<open>The splitter\<close>

definition splitter_new_checked :: "'c cipher_api \<Rightarrow> bytes \<Rightarrow> 'c mtproto_message_splitter option option" where
  "splitter_new_checked C init_data =
     (if length init_data < 64 then Some None
      else do {
        key \<leftarrow> rng 8 40 init_data;
        iv \<leftarrow> rng 40 56 init_data;
        Some (case new_from_slices C key iv of
            None \<Rightarrow> None
          | Some c \<Rightarrow> Some \<lparr>cipher = snd (apply_keystream C c (replicate 64 0))\<rparr>)
      })"

text \<open>Where the message ends whose payload of \<open>msg_len\<close> bytes starts at \<open>pos\<close>.\<close>

definition payload_end :: "bytes \<Rightarrow> nat \<Rightarrow> nat \<Rightarrow> nat option" where
  "payload_end plain pos msg_len = (if msg_len = 0 \<or> length plain < pos + msg_len then None else Some (pos + msg_len))"

definition message_end_checked :: "bytes \<Rightarrow> nat \<Rightarrow> nat option option" where
  "message_end_checked plain pos = do {
     first \<leftarrow> item plain pos;
     if first = 0x7f then
       if length plain < pos + 4 then Some None
       else do {
         a \<leftarrow> item plain (pos + 1);
         b \<leftarrow> item plain (pos + 2);
         c \<leftarrow> item plain (pos + 3);
         Some (payload_end plain (pos + 4) ((unat a OR push_bit 8 (unat b) OR push_bit 16 (unat c)) * 4))
       }
     else Some (payload_end plain (pos + 1) (unat first * 4))
   }"

partial_function (option) boundaries_checked :: "bytes \<Rightarrow> nat \<Rightarrow> nat list \<Rightarrow> nat list option" where
  "boundaries_checked plain pos boundaries =
     (if pos < length plain then do {
        e \<leftarrow> message_end_checked plain pos;
        (case e of None \<Rightarrow> Some boundaries | Some p \<Rightarrow> boundaries_checked plain p (boundaries @ [p]))
      }
      else Some boundaries)"

fun cut_checked :: "bytes \<Rightarrow> nat \<Rightarrow> nat list \<Rightarrow> bytes list \<Rightarrow> bytes list option" where
  "cut_checked chunk prev [] parts =
     (if prev < length chunk then do { r \<leftarrow> rng prev (length chunk) chunk; Some (parts @ [r]) } else Some parts)"
| "cut_checked chunk prev (e # ends) parts = do { p \<leftarrow> rng prev e chunk; cut_checked chunk e ends (parts @ [p]) }"

definition split_checked ::
    "'c cipher_api \<Rightarrow> 'c mtproto_message_splitter \<Rightarrow> bytes \<Rightarrow> (bytes list \<times> 'c mtproto_message_splitter) option" where
  "split_checked C sp chunk =
     (if chunk = [] then Some ([[]], sp)
      else do {
        let (plain, c') = apply_keystream C (cipher sp) chunk;
        boundaries \<leftarrow> boundaries_checked plain 0 [];
        parts \<leftarrow> (if length boundaries \<le> 1 then Some [chunk] else cut_checked chunk 0 boundaries []);
        Some (parts, sp\<lparr>cipher := c'\<rparr>)
      })"

definition plain_message_end_checked :: "bytes \<Rightarrow> nat \<Rightarrow> nat option option" where
  "plain_message_end_checked chunk pos = do {
     b \<leftarrow> item chunk pos;
     let len = unat b;
     if len = 0 then Some None
     else if len = 0x7f \<and> length chunk < pos + 4 then Some None
     else do {
       total_len \<leftarrow>
         (if len = 0x7f then do {
            x \<leftarrow> item chunk (pos + 1); y \<leftarrow> item chunk (pos + 2); z \<leftarrow> item chunk (pos + 3);
            Some (4 + unat (from_le_bytes [x, y, z, 0] :: u32))
          }
          else Some (1 + len * 4));
       Some (if length chunk < pos + total_len then None else Some (pos + total_len))
     }
   }"

partial_function (option) plain_parts_checked :: "bytes \<Rightarrow> nat \<Rightarrow> bytes list \<Rightarrow> bytes list option" where
  "plain_parts_checked chunk pos parts =
     (if pos < length chunk then do {
        e \<leftarrow> plain_message_end_checked chunk pos;
        (case e of
          None \<Rightarrow> Some parts
        | Some p \<Rightarrow> do { part \<leftarrow> rng pos p chunk; plain_parts_checked chunk p (parts @ [part]) })
      }
      else Some parts)"

definition split_plain_checked :: "bytes \<Rightarrow> bytes list option" where
  "split_plain_checked chunk = do {
     parts \<leftarrow> plain_parts_checked chunk 0 [];
     Some (if parts = [] then [chunk] else parts)
   }"

section \<open>The WebSocket\<close>

definition parse_close_payload_checked :: "bytes \<Rightarrow> ws_close_info option" where
  "parse_close_payload_checked payload =
     (if length payload < 2 then Some \<lparr>code = None, reason = None\<rparr>
      else do {
        x \<leftarrow> item payload 0;
        y \<leftarrow> item payload 1;
        why \<leftarrow> (if length payload > 2
                 then do { r \<leftarrow> rng 2 (length payload) payload; Some (Some (from_utf8_lossy r)) }
                 else Some None);
        Some \<lparr>code = Some (from_be_bytes [x, y]), reason = why\<rparr>
      })"

text \<open>The masking loops of both directions, with the four bytes of the mask as an array.\<close>

definition mask_checked :: "bytes \<Rightarrow> bytes \<Rightarrow> bytes option" where
  "mask_checked key payload =
     each (\<lambda>(i, b). do { k \<leftarrow> item key (i mod 4); Some (b XOR k) }) (enumerate 0 payload)"

text \<open>Whether the header read so far is complete; \<open>last_two\<close> is an array of two bytes.\<close>

definition header_complete_checked :: "bytes \<Rightarrow> bool option" where
  "header_complete_checked header =
     (let len = length header in
      if 2 \<le> len then do {
        a \<leftarrow> usize_sub len 2;
        last_two \<leftarrow> rng a len header;
        if length last_two \<noteq> 2 then None
        else Some (last_two = [0x0D, 0x0A] \<and> 4 \<le> len \<and> suffix header_end header)
      }
      else Some False)"

section \<open>The guards suffice\<close>

lemma slice_to_end: "slice a (length xs) xs = drop a xs"
  by (simp add: slice_def)

lemma parse_close_payload_checks: "parse_close_payload_checked payload = Some (parse_close_payload payload)"
  by (auto simp: parse_close_payload_checked_def parse_close_payload_def item_def rng_def slice_to_end)

lemma mask_checks:
  assumes "length key = 4"
  shows "mask_checked key payload = Some (xor_with (\<lambda>i. key ! (i mod 4)) payload)"
proof -
  have "mask_checked key payload = Some (map (\<lambda>(i, b). b XOR key ! (i mod 4)) (enumerate 0 payload))"
    unfolding mask_checked_def by (rule each_Some) (auto simp: in_bounds assms)
  also have "map (\<lambda>(i, b). b XOR key ! (i mod 4)) (enumerate 0 payload) = xor_with (\<lambda>i. key ! (i mod 4)) payload"
    by (rule nth_equalityI) (simp_all add: nth_enumerate_eq)
  finally show ?thesis .
qed

lemma header_complete_checks: "header_complete_checked header = Some (suffix header_end header)"
proof (cases "suffix header_end header")
  case True
  then obtain xs where "header = xs @ header_end" by (auto simp: suffix_def)
  then show ?thesis
    by (simp add: header_complete_checked_def header_end_def Let_def in_bounds slice_def numeral_2_eq_2)
next
  case False
  then show ?thesis
    by (auto simp: header_complete_checked_def Let_def in_bounds slice_def)
qed

lemma message_end_checks: "pos < length plain \<Longrightarrow> message_end_checked plain pos = Some (message_end plain pos)"
  by (auto simp: message_end_checked_def message_end_def payload_end_def Let_def in_bounds)

lemma boundaries_checks: "boundaries_checked plain pos bs = Some (bs @ boundaries_from plain pos)"
proof (induction plain pos arbitrary: bs rule: boundaries_from.induct)
  case (1 plain pos)
  then show ?case
    by (auto simp: boundaries_checked.simps [of plain pos] boundaries_from.simps [of plain pos] message_end_checks
        split: option.split)
qed

lemma cut_checks:
  assumes "sorted_wrt (<) ends" "\<forall>p \<in> set ends. prev < p \<and> p \<le> length chunk"
  shows "cut_checked chunk prev ends parts = Some (parts @ cut_at chunk prev ends)"
  using assms
  by (induction chunk prev ends parts rule: cut_checked.induct) (auto simp: in_bounds slice_to_end)

lemma plain_message_end_checks:
  "pos < length chunk \<Longrightarrow> plain_message_end_checked chunk pos = Some (plain_message_end chunk pos)"
  by (auto simp: plain_message_end_checked_def plain_message_end_def Let_def in_bounds)

lemma plain_parts_checks: "plain_parts_checked chunk pos parts = Some (parts @ plain_parts_from chunk pos)"
proof (induction chunk pos arbitrary: parts rule: plain_parts_from.induct)
  case (1 chunk pos)
  show ?case
  proof (cases "pos < length chunk")
    case True
    show ?thesis
    proof (cases "plain_message_end chunk pos")
      case (Some p)
      with 1 [OF True Some] True plain_message_end_bounds [OF Some] show ?thesis
        by (simp add: plain_parts_checked.simps [of chunk pos] plain_parts_from.simps [of chunk pos]
            plain_message_end_checks in_bounds)
    qed (use True in \<open>simp add: plain_parts_checked.simps [of chunk pos] plain_parts_from.simps [of chunk pos]
            plain_message_end_checks\<close>)
  qed (simp add: plain_parts_checked.simps [of chunk pos] plain_parts_from.simps [of chunk pos])
qed

lemma split_plain_checks: "split_plain_checked chunk = Some (split_plain_mtproto_messages chunk)"
  by (simp add: split_plain_checked_def split_plain_mtproto_messages_def plain_parts_checks Let_def)

context stream_cipher
begin

lemma keystream_checks: "64 \<le> length data \<Longrightarrow> keystream_checked C data = Some (keystream C data)"
  by (simp add: keystream_checked_def keystream_def in_bounds Let_def)

lemma keystream_length: "keystream C data = Some s \<Longrightarrow> length s = 64"
  by (auto simp: keystream_def Let_def split: option.splits)

lemma decrypt_header_checks: "64 \<le> length data \<Longrightarrow> decrypt_header_checked C data = Some (decrypt_header C data)"
proof -
  assume len: "64 \<le> length data"
  have "each (\<lambda>i. do { d \<leftarrow> item data (56 + i); k \<leftarrow> item s (56 + i); Some (d XOR k) }) [0..<8]
      = Some (map (\<lambda>i. data ! (56 + i) XOR s ! (56 + i)) [0..<8])" if "keystream C data = Some s" for s
    using len keystream_length [OF that] by (intro each_Some) (simp add: in_bounds)
  with len show ?thesis
    by (simp add: decrypt_header_checked_def decrypt_header_def keystream_checks split: option.split)
qed

lemma decrypt_header_length: "decrypt_header C data = Some p \<Longrightarrow> length p = 8"
  by (auto simp: decrypt_header_def split: option.splits)

lemma extract_dc_checks: "extract_dc_checked C data = Some (extract_dc C data)"
proof (cases "length data < 64")
  case False
  let ?p = "case decrypt_header C data of None \<Rightarrow> replicate 8 0 | Some p \<Rightarrow> p"
  have "length ?p = 8" by (simp add: decrypt_header_length split: option.split)
  with False show ?thesis
    by (simp add: extract_dc_checked_def extract_dc_def decrypt_header_checks Let_def in_bounds)
qed (simp add: extract_dc_checked_def extract_dc_def)

lemma patch_init_dc_checks: "patch_init_dc_checked C data dc = Some (patch_init_dc C data dc)"
proof (cases "length data < 64")
  case False
  then have "length (slice 0 64 data) = 64" by (simp add: slice_def)
  with False show ?thesis
    by (auto simp: patch_init_dc_checked_def patch_init_dc_def keystream_checks keystream_length Let_def in_bounds
        slice_to_end split: option.split)
qed (simp add: patch_init_dc_checked_def patch_init_dc_def)

lemma splitter_new_checks: "splitter_new_checked C data = Some (splitter_new C data)"
  by (simp add: splitter_new_checked_def splitter_new_def in_bounds Let_def)

lemma split_checks: "split_checked C sp chunk = Some (split_chunk C sp chunk)"
proof (cases "chunk = []")
  case False
  obtain plain c' where a: "apply_keystream C (cipher sp) chunk = (plain, c')"
    by (cases "apply_keystream C (cipher sp) chunk")
  have len: "length plain = length chunk" using apply_length [of "cipher sp" chunk] a by simp
  have "cut_checked chunk 0 (boundaries_from plain 0) [] = Some ([] @ cut_at chunk 0 (boundaries_from plain 0))"
    by (rule cut_checks) (use boundaries_from_sorted boundaries_from_bounds len in fastforce)+
  with False a show ?thesis by (simp add: split_checked_def split_chunk_def boundaries_checks)
qed (simp add: split_checked_def split_chunk_def)

end

text \<open>
  C12. No index or slice of the program is ever out of bounds, whatever bytes a client or a server
  sends: with every access checked, the routines that read and patch the init packet, make the
  splitter, split a chunk, split plain messages, read a close payload, mask and unmask, and look
  for the end of the response header all end, without a panic, with the results that the other
  theories compute for them.
\<close>

theorem index_checks_pass:
  "extract_dc_checked (ctr_api enc) data = Some (extract_dc (ctr_api enc) data)
   \<and> patch_init_dc_checked (ctr_api enc) data dc = Some (patch_init_dc (ctr_api enc) data dc)
   \<and> splitter_new_checked (ctr_api enc) data = Some (splitter_new (ctr_api enc) data)
   \<and> split_checked (ctr_api enc) sp chunk = Some (split_chunk (ctr_api enc) sp chunk)
   \<and> split_plain_checked chunk = Some (split_plain_mtproto_messages chunk)
   \<and> parse_close_payload_checked payload = Some (parse_close_payload payload)
   \<and> mask_checked [m0, m1, m2, m3] payload = Some (xor_with (\<lambda>i. [m0, m1, m2, m3] ! (i mod 4)) payload)
   \<and> header_complete_checked header = Some (suffix header_end header)"
  by (intro conjI ctr.extract_dc_checks ctr.patch_init_dc_checks ctr.splitter_new_checks ctr.split_checks
      split_plain_checks parse_close_payload_checks mask_checks header_complete_checks) simp

end
