(* ===== verification/Panic_Free.thy ===== *)
theory Panic_Free
  imports Routing
begin

text \<open>
  Which panics can happen while a client is served. \<open>panics_only P m\<close> says that the
  computation \<open>m\<close> panics at most with a message in \<open>P\<close>; the collection \<open>panics_intros\<close> closes
  it under the combinators, and each component adds its operations. The panics of this theory are
  the explicit ones: the allocation of a frame's payload and the \<open>unwrap\<close> of the tables of
  \<open>Catalog\<close>. Those of indexing and slicing are in \<open>Index_Checks\<close>. Two more are left out: the
  \<open>expect\<close> on the global locks panics only after a panic while a lock is held, and the critical
  sections of the program only use a hash map and the clock; and an allocation that fails aborts
  the process.
\<close>

definition panics_only :: "string set \<Rightarrow> ('s, 'a, 'e) io \<Rightarrow> bool" where
  "panics_only P m \<longleftrightarrow> (\<forall>s p. fst (m s) = Panic p \<longrightarrow> p \<in> P)"

named_theorems panics_intros

lemma panics_onlyD: "panics_only P m \<Longrightarrow> m s = (Panic p, s') \<Longrightarrow> p \<in> P"
  unfolding panics_only_def by (metis fst_conv)

lemma panics_only_mono: "panics_only P m \<Longrightarrow> P \<subseteq> Q \<Longrightarrow> panics_only Q m"
  unfolding panics_only_def by blast

lemma panics_only_simple [panics_intros]:
  "panics_only P (io_ok a)" "panics_only P (io_err e)" "p \<in> P \<Longrightarrow> panics_only P (io_panic p)"
  "panics_only P (read_exact n)" "panics_only P read_byte" "panics_only P (write_all bs)"
  "panics_only P flush" "panics_only P shutdown"
  by (auto simp: panics_only_def read_exact_def read_byte_def at_rx_end_def write_all_def shutdown_def
      split: rx_end.splits tx_end.splits shut_end.splits option.splits list.splits if_splits)

lemma panics_only_bind [panics_intros]:
  "panics_only P m \<Longrightarrow> (\<And>a. panics_only P (f a)) \<Longrightarrow> panics_only P (io_bind m f)"
  unfolding panics_only_def io_bind_def by (auto split: prod.splits outcome.splits) (metis fst_conv)+

lemma panics_only_map_err [panics_intros]: "panics_only P m \<Longrightarrow> panics_only P (io_map_err g m)"
  unfolding panics_only_def io_map_err_def by (auto split: prod.splits outcome.splits) (metis fst_conv)+

lemma panics_only_ignore [panics_intros]: "panics_only P m \<Longrightarrow> panics_only P (io_ignore m)"
  unfolding panics_only_def io_ignore_def by (auto split: prod.splits outcome.splits) (metis fst_conv)+

lemma panics_only_if [panics_intros]:
  "(b \<Longrightarrow> panics_only P m) \<Longrightarrow> (\<not> b \<Longrightarrow> panics_only P n) \<Longrightarrow> panics_only P (if b then m else n)"
  by simp

lemma panics_only_option [panics_intros]:
  "(x = None \<Longrightarrow> panics_only P m) \<Longrightarrow> (\<And>a. x = Some a \<Longrightarrow> panics_only P (f a)) \<Longrightarrow>
   panics_only P (case x of None \<Rightarrow> m | Some a \<Rightarrow> f a)"
  by (cases x) simp_all

lemma panics_only_Let [panics_intros]: "panics_only P (f x) \<Longrightarrow> panics_only P (let y = x in f y)"
  by simp

lemma panics_only_wrap [panics_intros]:
  "panics_only P m \<Longrightarrow> panics_only P (sio m)" "panics_only P m \<Longrightarrow> panics_only P (wsio m)"
  by (simp_all add: sio_def wsio_def panics_only_map_err)

section \<open>The handshakes\<close>

lemma panics_only_utf8 [panics_intros]: "panics_only P (utf8_or_error bs)"
  unfolding utf8_or_error_def by (intro panics_intros)

lemma panics_only_socks [panics_intros]:
  "panics_only P read_auth_field" "panics_only P (read_target_address atyp)"
  unfolding read_auth_field_def read_target_address_def by (intro panics_intros)+

lemma panics_only_login [panics_intros]: "panics_only P (authenticate_user auth)"
  unfolding authenticate_user_def by (intro panics_intros)

lemma panics_only_request [panics_intros]: "panics_only P read_request"
  unfolding read_request_def by (intro panics_intros)

lemma panics_only_handshake [panics_intros]: "panics_only P (handle_socks5_handshake auth)"
  unfolding handle_socks5_handshake_def by (intro panics_intros)

lemma panics_only_of_sum [panics_intros]: "panics_only P (io_of_sum x)"
  by (cases x) (auto simp: io_of_sum_def intro: panics_intros)

lemma read_headers_from_no_panic: "fst (read_headers_from header s) \<noteq> Panic p"
proof (induction header s rule: read_headers_from.induct)
  case (1 header s)
  have "panics_only {} (wsio read_byte)" by (intro panics_intros)
  then have "fst (wsio read_byte s) \<noteq> Panic p" by (auto simp: panics_only_def)
  with 1 show ?case
    by (cases "wsio read_byte s") (auto simp: read_headers_from.simps [of header s] split: outcome.split option.split)
qed

lemma panics_only_headers [panics_intros]: "panics_only P read_handshake_headers"
  unfolding read_handshake_headers_def
  by (intro panics_intros) (simp add: panics_only_def read_headers_from_no_panic)

lemma panics_only_perform [panics_intros]: "panics_only P (perform_handshake net domain)"
  unfolding perform_handshake_def by (intro panics_intros)

lemma ws_connect_no_panic: "ws_connect net domain t \<noteq> Panic p"
  using panics_onlyD [OF panics_only_perform [of "{}"]]
  by (auto simp: ws_connect_def split: sum.split prod.split outcome.split)

lemma connect_ws_route_no_panic: "connect_ws_route nets cfg dc m \<noteq> Panic p"
proof -
  have "connect_ws_from nets i ms ds flag \<noteq> Panic p" for i ms ds flag
    by (induction nets i ms ds flag rule: connect_ws_from.induct) (auto simp: ws_connect_no_panic split: outcome.split)
  then show ?thesis by (simp add: connect_ws_route_def)
qed

section \<open>Frames and the bridge\<close>

abbreviation too_large :: "string set" where
  "too_large \<equiv> {''capacity overflow''}"

lemma panics_only_frame_parts [panics_intros]:
  "panics_only P (read_frame_length b)" "panics_only too_large (alloc_zeroed n)"
  unfolding read_frame_length_def alloc_zeroed_def by (intro panics_intros; simp)+

lemma panics_only_body [panics_intros]: "panics_only too_large (read_frame_body b0 b1)"
  unfolding read_frame_body_def by (intro panics_intros)

lemma panics_only_read_frame [panics_intros]: "panics_only too_large read_frame"
proof -
  have 1: "panics_only too_large (io_bind (read_frame_body x y) (\<lambda>f. io_ok (Some f)))" for x y
    by (intro panics_intros)
  have 2: "panics_only {} (read_exact 2)" by (intro panics_intros)
  show ?thesis
    unfolding panics_only_def read_frame_def
    by (auto split: prod.splits outcome.splits if_splits dest: panics_onlyD [OF 2])
      (use 1 in \<open>auto simp: panics_only_def\<close>)
qed

lemma recv_frame_panics: "recv_frame s = (Panic p, s') \<Longrightarrow> p \<in> too_large"
proof (induction s rule: recv_frame.induct)
  case (1 s)
  then show ?case
    using panics_onlyD [OF panics_only_read_frame]
    by (auto simp: recv_frame.simps [of s] split: prod.splits outcome.splits option.splits ws_frame.splits)
qed

lemma panics_only_send [panics_intros]:
  "panics_only P (send_raw frame)" "panics_only P (ws_send rnd payload)"
  "panics_only P (send_control_frame rnd opcode payload)" "panics_only P ws_close"
  unfolding ws_send_def send_control_frame_def send_raw_def ws_close_def by (intro panics_intros)+

lemma panics_only_parts [panics_intros]: "panics_only P (send_parts rnds k parts)"
  by (induction parts arbitrary: k) (auto intro: panics_intros)

text \<open>What the loops have ended with so far.\<close>

definition sound_end :: "string set \<Rightarrow> (bridge_stats, bridge_error) outcome option \<Rightarrow> bool" where
  "sound_end P r \<longleftrightarrow> (\<forall>p. r = Some (Panic p) \<longrightarrow> p \<in> P)"

lemma sound_end_loop: "panics_only P m \<Longrightarrow> m s = (r, s') \<Longrightarrow> sound_end P (loop_end f r)"
  by (cases r) (auto simp: sound_end_def dest: panics_onlyD)

definition panic_inv :: "'c bridge \<Rightarrow> bool" where
  "panic_inv b \<longleftrightarrow> sound_end {} (up_result b) \<and> sound_end too_large (down_result b)"

lemma up_turn_panic_inv: "panic_inv b \<Longrightarrow> up_turn C rnds n b = Some b' \<Longrightarrow> panic_inv b'"
  using sound_end_loop [OF panics_only_parts [of "{}"]] sound_end_loop [OF panics_only_send(4) [of "{}"]]
  by (auto simp: panic_inv_def up_turn_def up_chunk_def up_read_def up_finish_def sound_end_def
      split: if_splits rx_end.splits prod.splits option.splits)

lemma down_turn_panic_inv:
  assumes "panic_inv b" "down_turn rnds b = Some b'"
  shows "panic_inv b'"
proof -
  note ends = sound_end_loop [OF panics_only_simple(6) [of too_large], of _ _ _ _ ClientIo]
    sound_end_loop [OF panics_only_simple(8) [of too_large], of _ _ _ ClientIo]
    sound_end_loop [OF panics_only_send(3) [of too_large], of _ _ _ _ _ _ WsOther]
  have fin: "sound_end too_large (down_result (down_finish why b1))" "up_result (down_finish why b1) = up_result b1"
    for why and b1 :: "'a bridge"
    using ends(2) by (auto simp: down_finish_def sound_end_def split: prod.split option.split)
  obtain r w where r: "recv_frame (ws b) = (r, w)" by (cases "recv_frame (ws b)")
  with assms ends(1,3) recv_frame_panics [of "ws b"] show ?thesis
    by (cases r) (auto simp: panic_inv_def down_turn_def fin sound_end_def
        split: if_splits option.splits ws_incoming.splits prod.splits
        dest: fin(1) [unfolded sound_end_def, simplified, rule_format])
qed

lemma run_bridge_panic_inv: "panic_inv b \<Longrightarrow> panic_inv (run_bridge C rnds sched b)"
proof (rule run_bridge_inv)
  show "panic_inv b'" if "panic_inv b1" "bridge_turn C rnds t b1 = Some b'" for t b1 b'
    using that up_turn_panic_inv down_turn_panic_inv by (cases t) auto
qed

lemma bridge_start_sound:
  "bridge_start rnds c w data sp \<noteq> Panic p"
  "bridge_start rnds c w data sp = Ok b \<Longrightarrow> panic_inv b"
  using panics_onlyD [OF panics_only_send(2) [of "{}"]]
  by (auto simp: bridge_start_def panic_inv_def sound_end_def split: prod.splits outcome.splits)

lemma bridge_panics: "bridge_ws_tcp C rnds sched c w data sp = (Panic p, b) \<Longrightarrow> p \<in> too_large"
proof -
  assume r: "bridge_ws_tcp C rnds sched c w data sp = (Panic p, b)"
  then obtain b0 where b0: "bridge_start rnds c w data sp = Ok b0"
    and p: "bridge_result (run_bridge C rnds sched b0) = Panic p"
    by (auto simp: bridge_ws_tcp_def bridge_start_sound split: outcome.splits)
  have "panic_inv (run_bridge C rnds sched b0)"
    using bridge_start_sound(2) [OF b0] by (rule run_bridge_panic_inv)
  with p show ?thesis
    by (auto simp: bridge_result_def panic_inv_def sound_end_def split: option.splits outcome.splits)
qed

section \<open>Serving a client\<close>

lemma read_telegram_init_no_panic: "read_telegram_init s \<noteq> (Panic p, s')"
  by (auto simp: read_telegram_init_def split: if_splits prod.splits outcome.splits dest: panics_onlyD [OF panics_only_simple(4) [of "{}"]])

text \<open>
  The ways a client's task may end as far as panics go. A direct connection runs
  \<open>copy_bidirectional\<close> of the runtime, so it may panic only as that does.
\<close>

definition copy_panics :: "tcp_net \<Rightarrow> string set" where
  "copy_panics net = {p. \<exists>c r. fst (copy_bidirectional net c r) = Panic p}"

definition direct_ok :: "tcp_net \<Rightarrow> direct_result \<Rightarrow> bool" where
  "direct_ok net d \<longleftrightarrow> (\<forall>p. fst d = Panic p \<longrightarrow> p \<in> copy_panics net)"

definition no_wild_panic :: "tcp_net \<Rightarrow> 'c route_outcome \<Rightarrow> bool" where
  "no_wild_panic net out =
     (case out of
        RoutePanicked p \<Rightarrow> False
      | Bridged rb \<Rightarrow> (case fst rb of Panic p \<Rightarrow> p = ''capacity overflow'' | _ \<Rightarrow> True)
      | PassedThrough d \<Rightarrow> direct_ok net d
      | UnknownDc (Some d) \<Rightarrow> direct_ok net d
      | _ \<Rightarrow> True)"

lemma direct_no_panic: "direct_ok net (bridge_tcp_tcp_with_prelude net c h p prelude)"
proof (cases "connect_host net h p")
  case (Inr remote)
  obtain q r1 where w: "(if prelude \<noteq> [] then write_all prelude remote else (Ok (), remote)) = (q, r1)"
    by (cases "if prelude \<noteq> [] then write_all prelude remote else (Ok (), remote)")
  have q: "q \<noteq> Panic m" for m
    using w panics_onlyD [OF panics_only_simple(6) [of "{}" prelude], of remote] by (auto split: if_splits)
  obtain r c2 r2 where cp: "copy_bidirectional net c r1 = (r, c2, r2)" by (cases "copy_bidirectional net c r1")
  have r: "r = Panic m \<Longrightarrow> m \<in> copy_panics net" for m unfolding copy_panics_def mem_Collect_eq using cp by (intro exI [of _ c] exI [of _ r1]) simp
  obtain x c3 y r3 where s: "shutdown c2 = (x, c3)" "shutdown r2 = (y, r3)"
    by (cases "shutdown c2"; cases "shutdown r2")
  have xy: "x \<noteq> Panic m" "y \<noteq> Panic m" for m using s shutdown_no_panic by metis+
  show ?thesis
    unfolding direct_ok_def bridge_tcp_tcp_with_prelude_def Inr sum.case w prod.case
    using q r xy by (cases q; cases r; cases x) (auto simp: cp s)
qed (simp add: direct_ok_def bridge_tcp_tcp_with_prelude_def)

lemma no_wild_panic_simps [simp]:
  "no_wild_panic net (InvalidSocks e)" "no_wild_panic net (PassedThrough d) = direct_ok net d"
  "no_wild_panic net (InitFailed i)" "no_wild_panic net HttpRejected" "no_wild_panic net (UnknownDc None)"
  "no_wild_panic net (UnknownDc (Some d)) = direct_ok net d"
  "no_wild_panic net RouteCooldown" "no_wild_panic net RouteDisabled" "no_wild_panic net RouteUnavailable"
  "no_wild_panic net RoutePending" "\<not> no_wild_panic net (RoutePanicked p)"
  by (simp_all add: no_wild_panic_def)

lemma direct_connections_no_panic [simp]:
  "direct_ok net (passthrough_non_telegram net s h p)"
  "no_wild_panic net (UnknownDc (handle_unknown_dc net s h p v6 data))"
  by (simp_all add: passthrough_non_telegram_def bridge_tcp_tcp_def handle_unknown_dc_def direct_no_panic)

lemma no_wild_panic_bridged [simp]: "no_wild_panic net (Bridged (bridge_ws_tcp C rnds sched c w data sp))"
  by (auto simp: no_wild_panic_def split: outcome.split)
    (metis bridge_panics prod.collapse singletonD)

lemma route_resolved_no_panic: "case fst (route_resolved env now s h pt r g) of Inl out \<Rightarrow> no_wild_panic (env_tcp env) out | Inr _ \<Rightarrow> True"
  by (auto simp: route_resolved_def Let_def split: option.split prod.split ws_decision.split)

lemma route_begin_no_panic: "case fst (route_begin env cfg now s g) of Inl out \<Rightarrow> no_wild_panic (env_tcp env) out | Inr _ \<Rightarrow> True"
proof -
  have 1: "handle_socks5_handshake auth s \<noteq> (Panic p, s')" for auth s s' and p :: string
    using panics_onlyD [OF panics_only_handshake [of "{}"]] by blast
  have 2: "resolve_telegram_init C cache h data \<noteq> None" for C :: "'a cipher_api" and cache h data
    using or_static_total [of h "learned_ipv6_entry h cache"]
    by (auto simp: resolve_telegram_init_def Let_def split: option.split)
  show ?thesis
    using 2 route_resolved_no_panic [of env now]
    by (auto simp: route_begin_def 1 read_telegram_init_no_panic is_telegram_ip_total simp del: not_None_eq
        split: prod.split outcome.split socks_command.split option.split bool.split)
qed

lemma route_finish_no_panic:
  "no_wild_panic net (fst (route_finish env rd (connect_ws_route nets cfg dc m) g))"
  using connect_ws_route_no_panic [of nets cfg dc m] connect_ws_from_not_Err
  by (auto simp: route_finish_def connect_ws_route_def split: outcome.split option.split)

text \<open>
  No error value that a client, a Telegram host or the network causes is turned into a panic of a
  client's task, with two exceptions: the allocation of the payload of a server frame whose
  announced length no buffer can have, and a panic of the runtime's \<open>copy_bidirectional\<close>. The
  tables of addresses always parse, every handshake and request error is a value, and of the two
  loops of the relay only the downstream one can end in a panic, with that message. The bounds
  checks of indices are the subject of \<open>Index_Checks\<close>.
\<close>

theorem route_client_panics_only_on_huge_frames: "no_wild_panic (env_tcp env) (fst (route_client env cfg now s g))"
  using route_begin_no_panic [of env cfg now s g] route_finish_no_panic
  by (auto simp: route_client_def split: prod.split sum.split)

end
