(* ===== verification/Program.thy ===== *)
theory Program
  imports Server
begin

text \<open>
  The program (\<open>main.rs\<close>) and its shutdown (\<open>runtime/shutdown.rs\<close>). Times are milliseconds since
  the start. What happens to the listeners is a list of timed events; the operating system says
  whether the signal handlers can be registered and when the first signal of each kind comes.
  \<open>tokio::select!\<close> polls its branches in a random order: \<open>server_first t\<close> tells whether the
  server's turn comes first at time \<open>t\<close>. Parsing the command line and setting up the log filter
  are done by \<open>clap\<close> and \<open>tracing_subscriber\<close>: the parsed configuration is an argument.
\<close>

section \<open>Waiting for a signal\<close>

text \<open>A registration either succeeds or fails with an error, of which \<open>expect\<close> prints the text.\<close>

record os_signals =
  term_error :: "string option"
  int_error :: "string option"
  term_at :: "nat option"
  int_at :: "nat option"

fun earliest :: "nat option \<Rightarrow> nat option \<Rightarrow> nat option" where
  "earliest None b = b"
| "earliest a None = a"
| "earliest (Some a) (Some b) = Some (min a b)"

definition SHUTDOWN_GRACE :: nat where
  "SHUTDOWN_GRACE = 200"

definition wait_for_shutdown_signal :: "os_signals \<Rightarrow> (nat, io_error) outcome" where
  "wait_for_shutdown_signal sg =
     (case term_error sg of
        Some err \<Rightarrow> Panic (''failed to register SIGTERM handler: '' @ err)
      | None \<Rightarrow>
          (case int_error sg of
             Some err \<Rightarrow> Panic (''failed to register SIGINT handler: '' @ err)
           | None \<Rightarrow>
               (case earliest (term_at sg) (int_at sg) of
                  None \<Rightarrow> Pending
                | Some t \<Rightarrow> Ok (t + SHUTDOWN_GRACE))))"

text \<open>The variant of other systems: an error of \<open>ctrl_c\<close> counts as the signal.\<close>

definition wait_for_ctrl_c :: "(nat \<times> (io_error + unit)) option \<Rightarrow> (nat, io_error) outcome" where
  "wait_for_ctrl_c c = (case c of None \<Rightarrow> Pending | Some (t, _) \<Rightarrow> Ok t)"

section \<open>The main function\<close>

type_synonym timed_events = "(nat \<times> socket_addr \<times> accept_event) list"

record program_env =
  signals :: os_signals
  server_first :: "nat \<Rightarrow> bool"
  interfaces :: "ip_addr list option"
  sockets :: os_answer
  host_names :: resolver

definition announcements :: "ip_addr list option \<Rightarrow> cli_config \<Rightarrow> string list" where
  "announcements ifaces cfg =
     [''starting tg-ws-proxy-rs'', ''listening on '' @ cli_host cfg @ '':'' @ show_nat (unat (cli_port cfg))]
     @ map (\<lambda>link. ''telegram socks proxy link: '' @ link) (telegram_socks_proxy_links ifaces (cli_host cfg) (cli_port cfg))
     @ (if host_is_unspecified (cli_host cfg) then [''links are announced from detected local addresses''] else [])"

text \<open>The server when the first events have happened, and after how many of them it has ended.\<close>

definition server_after ::
    "program_env \<Rightarrow> cli_config \<Rightarrow> timed_events
      \<Rightarrow> (unit, io_error) outcome \<times> (routed_config \<times> stream) list \<times> socket_op list" where
  "server_after env cfg evs = run_server (sockets env) (host_names env) cfg (map snd evs) []"

definition server_end :: "program_env \<Rightarrow> cli_config \<Rightarrow> timed_events \<Rightarrow> nat option" where
  "server_end env cfg evs =
     find (\<lambda>n. fst (server_after env cfg (take n evs)) \<noteq> Pending) [0..<Suc (length evs)]"

definition end_time :: "timed_events \<Rightarrow> nat \<Rightarrow> nat" where
  "end_time evs n = (case n of 0 \<Rightarrow> 0 | Suc m \<Rightarrow> fst (evs ! m))"

text \<open>The events the server sees before a branch that is ready at time \<open>t\<close> is taken.\<close>

definition seen_until :: "program_env \<Rightarrow> nat \<Rightarrow> timed_events \<Rightarrow> timed_events" where
  "seen_until env t evs = takeWhile (\<lambda>e. fst e < t \<or> fst e = t \<and> server_first env t) evs"

datatype main_end = ServerEnd "(unit, io_error) outcome" | ShutdownSignal | MainPanic string | Running

text \<open>
  How \<open>main\<close> ends, and the events that have happened by then. The registrations are made when the
  signal branch is polled for the first time, at the start: if one fails, only a server that fails
  at once and is polled before can end the program differently.
\<close>

definition main_select :: "program_env \<Rightarrow> cli_config \<Rightarrow> timed_events \<Rightarrow> main_end \<times> timed_events" where
  "main_select env cfg evs =
     (let served = (\<lambda>n. (ServerEnd (fst (server_after env cfg (take n evs))), take n evs)) in
      case wait_for_shutdown_signal (signals env) of
        Panic p \<Rightarrow>
          if server_end env cfg evs = Some 0 \<and> server_first env 0 then served 0 else (MainPanic p, [])
      | Ok t \<Rightarrow>
          (case server_end env cfg evs of
             Some n \<Rightarrow>
               if end_time evs n < t \<or> end_time evs n = t \<and> server_first env t then served n
               else (ShutdownSignal, seen_until env t evs)
           | None \<Rightarrow> (ShutdownSignal, seen_until env t evs))
      | _ \<Rightarrow> (case server_end env cfg evs of Some n \<Rightarrow> served n | None \<Rightarrow> (Running, evs)))"

text \<open>
  What the program logs at the start, how it ends, and the clients it has handed to tasks.
  \<open>main\<close> returns \<open>()\<close> however the server ended, so that its exit status is 0.
\<close>

definition main_program ::
    "program_env \<Rightarrow> cli_config \<Rightarrow> timed_events \<Rightarrow> string list \<times> main_end \<times> (routed_config \<times> stream) list" where
  "main_program env cfg evs =
     (case main_select env cfg evs of
        (e, seen) \<Rightarrow> (announcements (interfaces env) cfg, e, fst (snd (server_after env cfg seen))))"

fun exit_status :: "main_end \<Rightarrow> nat option" where
  "exit_status (ServerEnd r) = Some 0"
| "exit_status ShutdownSignal = Some 0"
| "exit_status (MainPanic p) = Some 101"
| "exit_status Running = None"

section \<open>The server over time\<close>

text \<open>The configuration and the listeners of a server that has started.\<close>

definition starts :: "program_env \<Rightarrow> cli_config \<Rightarrow> routed_config \<Rightarrow> socket_addr list \<Rightarrow> bool" where
  "starts env cfg rc ls \<longleftrightarrow> routed_config_try_from cfg = Inr rc
     \<and> fst (bind_host (sockets env) (host_names env) (cli_host cfg) (cli_port cfg) []) = Ok ls"

definition on_listeners :: "socket_addr list \<Rightarrow> timed_events \<Rightarrow> accept_event list" where
  "on_listeners ls evs = map snd (filter (\<lambda>ev. fst ev \<in> set ls) (map snd evs))"

lemma on_listeners_simps [simp]:
  "on_listeners ls [] = []"
  "on_listeners ls (e # evs) = (if fst (snd e) \<in> set ls then [snd (snd e)] else []) @ on_listeners ls evs"
  by (simp_all add: on_listeners_def)

lemma server_after_started:
  assumes "starts env cfg rc ls"
  shows "fst (server_after env cfg evs) = fst (accept_loop (on_listeners ls evs))"
    "fst (snd (server_after env cfg evs)) = map (Pair rc) (snd (accept_loop (on_listeners ls evs)))"
  using assms
  by (auto simp: server_after_def run_server_def starts_def on_listeners_def split: prod.split)

lemma accept_loop_result: "fst (accept_loop evs) = Pending \<or> (\<exists>e. fst (accept_loop evs) = Err e \<and> Inl e \<in> set evs)"
  by (induction evs rule: accept_loop.induct) (auto split: prod.splits)

lemma accept_loop_no_error: "\<forall>ev \<in> set evs. \<exists>s. ev = Inr s \<Longrightarrow> accept_loop evs = (Pending, map projr evs)"
  by (induction evs rule: accept_loop.induct) auto

definition no_crash :: "('s, 'a, 'e) io \<Rightarrow> bool" where
  "no_crash m \<longleftrightarrow> (\<forall>s. (\<exists>a. fst (m s) = Ok a) \<or> (\<exists>e. fst (m s) = Err e))"

lemma no_crash_bind: "no_crash m \<Longrightarrow> (\<And>a. no_crash (f a)) \<Longrightarrow> no_crash (io_bind m f)"
  unfolding no_crash_def io_bind_def by (auto split: prod.split outcome.split) (metis fst_conv outcome.distinct)+

lemma no_crash_simple: "no_crash (io_ok a)" "no_crash (io_err e)" "no_crash (syscall os c)"
  by (auto simp: no_crash_def syscall_def split: option.split)

lemma no_crash_bind_each: "no_crash (bind_each os seen specs)"
  by (induction os seen specs rule: bind_each.induct)
    (auto simp: bind_socket_def simp del: io_ok_run intro!: no_crash_bind no_crash_simple)

lemma bind_host_no_crash: "no_crash (bind_host os resolve h p)"
  by (auto simp: bind_host_def no_crash_bind_each no_crash_simple simp del: io_ok_run split: sum.split)

lemma server_after_failed:
  assumes "\<not> (\<exists>rc ls. starts env cfg rc ls)"
  shows "(\<exists>e. fst (server_after env cfg evs) = Err e) \<and> fst (snd (server_after env cfg evs)) = []"
  using assms bind_host_no_crash [of "sockets env" "host_names env" "cli_host cfg" "cli_port cfg"]
  by (auto simp: server_after_def run_server_def starts_def no_crash_def
      split: sum.split prod.split outcome.split)

lemma server_after_result: "fst (server_after env cfg evs) = Pending \<or> (\<exists>e. fst (server_after env cfg evs) = Err e)"
proof (cases "\<exists>rc ls. starts env cfg rc ls")
  case True
  then show ?thesis using accept_loop_result server_after_started(1) by metis
next
  case False
  then show ?thesis using server_after_failed [of env cfg evs] by auto
qed

lemma server_end_None: "server_end env cfg evs = None \<Longrightarrow> fst (server_after env cfg evs) = Pending"
  by (fastforce simp: server_end_def find_None_iff)

lemma server_end_Some:
  assumes "server_end env cfg evs = Some n"
  shows "n \<le> length evs" "fst (server_after env cfg (take n evs)) \<noteq> Pending"
    "m < n \<Longrightarrow> fst (server_after env cfg (take m evs)) = Pending"
  using assms by (auto simp: server_end_def find_Some_iff nth_append split: if_splits)

lemma server_end_failed:
  assumes "\<not> (\<exists>rc ls. starts env cfg rc ls)"
  shows "server_end env cfg evs = Some 0"
proof -
  have "[0..<Suc (length evs)] = 0 # [Suc 0..<Suc (length evs)]" by (rule upt_conv_Cons) simp
  moreover have "fst (server_after env cfg (take 0 evs)) \<noteq> Pending"
    using server_after_failed [OF assms, of "take 0 evs"] by auto
  ultimately show ?thesis by (simp add: server_end_def del: upt_Suc)
qed

text \<open>The event at which a server that has started ends is an error of \<open>accept\<close>.\<close>

lemma server_end_event:
  assumes "starts env cfg rc ls" "server_end env cfg evs = Some n"
  obtains m l e where "n = Suc m" "m < length evs" "l \<in> set ls" "snd (evs ! m) = (l, Inl e)"
    "fst (server_after env cfg (take n evs)) = Err e"
proof -
  note S = server_end_Some [OF assms(2)] server_after_started(1) [OF assms(1)]
  have "n \<noteq> 0" using S by (cases n) auto
  then obtain m where m: "n = Suc m" by (cases n) auto
  then have lt: "m < length evs" using S(1) by simp
  then have tk: "take n evs = take m evs @ [evs ! m]" by (simp add: m take_Suc_conv_app_nth)
  have ok: "\<forall>ev \<in> set xs. \<exists>s. ev = Inr s" if "fst (accept_loop xs) = Pending" for xs
    using that by (induction xs rule: accept_loop.induct) (auto split: prod.splits)
  have app: "fst (accept_loop (xs @ ys)) = fst (accept_loop ys)" if "fst (accept_loop xs) = Pending" for xs ys
    using that by (induction xs rule: accept_loop.induct) (auto split: prod.splits)
  have "fst (accept_loop (on_listeners ls (take m evs))) = Pending" using S(3) [of m] S(4) m by simp
  then have r: "fst (server_after env cfg (take n evs)) = fst (accept_loop (on_listeners ls [evs ! m]))"
    unfolding S(4) tk by (simp add: on_listeners_def app)
  with S(2) obtain e where e: "snd (snd (evs ! m)) = Inl e" "fst (snd (evs ! m)) \<in> set ls"
    by (cases "snd (snd (evs ! m))") (auto split: if_splits)
  with r have "fst (server_after env cfg (take n evs)) = Err e" by simp
  with e m lt that [of m "fst (snd (evs ! m))" e] show ?thesis by (metis prod.collapse)
qed

section \<open>Properties\<close>

definition main_end_cause :: "program_env \<Rightarrow> cli_config \<Rightarrow> timed_events \<Rightarrow> main_end \<Rightarrow> timed_events \<Rightarrow> bool" where
  "main_end_cause env cfg evs e seen \<longleftrightarrow>
     (case e of
        ServerEnd r \<Rightarrow> \<exists>err. r = Err err \<and>
          (\<not> (\<exists>rc ls. starts env cfg rc ls) \<and> seen = []
           \<or> (\<exists>rc ls t l. starts env cfg rc ls \<and> seen \<noteq> [] \<and> last seen = (t, l, Inl err) \<and> l \<in> set ls))
      | ShutdownSignal \<Rightarrow> earliest (term_at (signals env)) (int_at (signals env)) \<noteq> None
      | MainPanic p \<Rightarrow> term_error (signals env) \<noteq> None \<or> int_error (signals env) \<noteq> None
      | Running \<Rightarrow> earliest (term_at (signals env)) (int_at (signals env)) = None
          \<and> fst (server_after env cfg evs) = Pending)"

lemma served_cause:
  assumes "server_end env cfg evs = Some n"
  shows "main_end_cause env cfg evs (ServerEnd (fst (server_after env cfg (take n evs)))) (take n evs)"
proof (cases "\<exists>rc ls. starts env cfg rc ls")
  case True
  then obtain rc ls where st: "starts env cfg rc ls" by blast
  from server_end_event [OF st assms] obtain m l e where m: "n = Suc m" "m < length evs" "l \<in> set ls"
    "snd (evs ! m) = (l, Inl e)" "fst (server_after env cfg (take n evs)) = Err e" .
  then have "take n evs \<noteq> []" "last (take n evs) = (fst (evs ! m), l, Inl e)"
    by (auto simp: take_Suc_conv_app_nth prod_eq_iff)
  with st m show ?thesis unfolding main_end_cause_def by auto
next
  case False
  then show ?thesis
    using server_end_failed [OF False, of evs] server_after_failed [OF False, of "[]"] assms
    by (auto simp: main_end_cause_def)
qed

text \<open>
  C33. How the program ends, exhaustively: with an error of the configuration or of binding,
  before anything is served; with an error of \<open>accept\<close> on one of its own listeners, which is
  the last event seen; with a signal; or with a panic when a signal handler cannot be registered.
  The message of a regular end of the server, \<open>server exited\<close>, is never reached, and without a
  signal or an error the program runs on.
\<close>

theorem main_ends_with_cause:
  "main_end_cause env cfg evs (fst (main_select env cfg evs)) (snd (main_select env cfg evs))"
proof -
  consider (panic) p where "wait_for_shutdown_signal (signals env) = Panic p"
      "term_error (signals env) \<noteq> None \<or> int_error (signals env) \<noteq> None"
    | (wait) "wait_for_shutdown_signal (signals env) = Pending" "earliest (term_at (signals env)) (int_at (signals env)) = None"
    | (signal) t where "wait_for_shutdown_signal (signals env) = Ok t" "earliest (term_at (signals env)) (int_at (signals env)) \<noteq> None"
    by (cases "term_error (signals env)"; cases "int_error (signals env)";
        cases "earliest (term_at (signals env)) (int_at (signals env))")
      (simp_all add: wait_for_shutdown_signal_def)
  then show ?thesis
  proof cases
    case panic
    then show ?thesis
      using served_cause [of env cfg evs 0] by (auto simp: main_select_def main_end_cause_def)
  next
    case wait
    then show ?thesis
      using served_cause [of env cfg evs] server_end_None [of env cfg evs]
      by (auto simp: main_select_def main_end_cause_def split: option.split)
  next
    case signal
    then show ?thesis
      using served_cause [of env cfg evs]
      by (auto simp: main_select_def main_end_cause_def Let_def split: option.split)
  qed
qed

text \<open>A connection counts when it comes before the time, or at it when the server is polled first.\<close>

definition in_time :: "program_env \<Rightarrow> nat \<Rightarrow> nat \<times> 'a \<Rightarrow> bool" where
  "in_time env t e \<longleftrightarrow> fst e < t \<or> fst e = t \<and> server_first env t"

lemma seen_until_filter: "sorted (map fst evs) \<Longrightarrow> seen_until env t evs = filter (in_time env t) evs"
proof -
  assume "sorted (map fst evs)"
  then have "takeWhile (in_time env t) evs = filter (in_time env t) evs"
  proof (induction evs)
    case (Cons e evs)
    have "filter (in_time env t) evs = []" if "\<not> in_time env t e"
      using Cons.prems that by (fastforce simp: in_time_def filter_empty_conv)
    with Cons show ?case by simp
  qed simp
  then show ?thesis by (simp add: seen_until_def in_time_def [abs_def])
qed

definition connections_on :: "socket_addr list \<Rightarrow> timed_events \<Rightarrow> stream list" where
  "connections_on ls evs = map projr (on_listeners ls evs)"

text \<open>
  C34. A signal does not stop the program at once: when the first SIGTERM or SIGINT comes at time
  \<open>t\<close> and the listeners work, the program ends at \<open>t\<close> plus 200 milliseconds, by the signal,
  and exactly the connections that came to its listeners until then, those of the last 200
  milliseconds included, have been handed to tasks.
\<close>

theorem shutdown_after_grace_period:
  assumes "starts env cfg rc ls" "term_error (signals env) = None" "int_error (signals env) = None"
    and "earliest (term_at (signals env)) (int_at (signals env)) = Some t" "sorted (map fst evs)"
    and "\<forall>e \<in> set evs. fst e \<le> t + 200 \<longrightarrow> fst (snd e) \<in> set ls \<longrightarrow> isl (snd (snd e)) = False"
  shows "main_program env cfg evs = (announcements (interfaces env) cfg, ShutdownSignal,
     map (Pair rc) (connections_on ls (filter (in_time env (t + 200)) evs)))"
proof -
  have sel: "main_select env cfg evs = (ShutdownSignal, seen_until env (t + 200) evs)"
  proof (cases "server_end env cfg evs")
    case (Some n)
    from server_end_event [OF assms(1) Some] obtain m l e where m: "n = Suc m" "m < length evs" "l \<in> set ls"
      "snd (evs ! m) = (l, Inl e)" .
    then have "\<not> fst (evs ! m) \<le> t + 200" using assms(6) nth_mem [OF m(2)] by auto
    with Some m(1) assms(2-4) show ?thesis
      by (simp add: main_select_def wait_for_shutdown_signal_def SHUTDOWN_GRACE_def end_time_def Let_def)
  qed (use assms(2-4) in \<open>simp add: main_select_def wait_for_shutdown_signal_def SHUTDOWN_GRACE_def Let_def\<close>)
  have "\<forall>ev \<in> set (on_listeners ls (filter (in_time env (t + 200)) evs)). \<exists>s. ev = Inr s"
  proof
    fix ev assume "ev \<in> set (on_listeners ls (filter (in_time env (t + 200)) evs))"
    then obtain e where e: "e \<in> set evs" "fst e \<le> t + 200" "fst (snd e) \<in> set ls" "ev = snd (snd e)"
      by (auto simp: on_listeners_def in_time_def)
    with assms(6) have "\<not> isl ev" by simp
    then show "\<exists>s. ev = Inr s" by (cases ev) auto
  qed
  then have "snd (accept_loop (on_listeners ls (filter (in_time env (t + 200)) evs)))
      = connections_on ls (filter (in_time env (t + 200)) evs)"
    by (simp add: accept_loop_no_error connections_on_def)
  with sel seen_until_filter [OF assms(5)] show ?thesis
    by (simp add: main_program_def server_after_started(2) [OF assms(1)])
qed

definition demo_cli :: cli_config where
  "demo_cli = \<lparr>cli_host = ''localhost'', cli_port = 1080, cli_log_level = ''info'', cli_read_timeout_secs = 15,
     cli_connect_timeout_secs = 10, cli_config_file = [], cli_health_addr = ''[::]:8080'', cli_socks_users = []\<rparr>"

definition demo_program_env :: program_env where
  "demo_program_env = \<lparr>signals = \<lparr>term_error = None, int_error = None, term_at = Some 50, int_at = Some 70\<rparr>,
     server_first = (\<lambda>t. False), interfaces = None, sockets = (\<lambda>log c. None),
     host_names = (\<lambda>h p. Inr [SocketV4 0x7F000001 p, SocketV6 1 p 0 0])\<rparr>"

lemma demo_starts: "starts demo_program_env demo_cli demo_cfg [SocketV4 0x7F000001 1080, SocketV6 1 1080 0 0]"
proof -
  have "routed_config_try_from demo_cli = Inr demo_cfg"
    by (simp add: routed_config_try_from_def parse_socks_auth_def demo_cli_def demo_cfg_def)
  moreover have "\<not> host_is_unspecified (Listen.normalize_host ''localhost'')" by code_simp
  ultimately show ?thesis
    by (simp add: starts_def bind_host_def bind_specs_def bind_socket_def syscall_def io_bind_def demo_cli_def
        demo_program_env_def)
qed

text \<open>Three connections: during the grace period on a listener, then elsewhere, then too late.\<close>

theorem shutdown_after_grace_period_witness:
  "main_program demo_program_env demo_cli
      [(120, SocketV6 1 1080 0 0, Inr (open_stream [5] Eof)), (200, SocketV4 7 80, Inr (open_stream [6] Eof)),
       (250, SocketV4 0x7F000001 1080, Inr (open_stream [7] Eof))]
    = ([''starting tg-ws-proxy-rs'', ''listening on localhost:1080'',
        ''telegram socks proxy link: tg://socks?server=localhost&port=1080''],
       ShutdownSignal, [(demo_cfg, open_stream [5] Eof)])"
proof -
  have "announcements None demo_cli = [''starting tg-ws-proxy-rs'', ''listening on localhost:1080'',
      ''telegram socks proxy link: tg://socks?server=localhost&port=1080'']" by code_simp
  then show ?thesis
    by (subst shutdown_after_grace_period [OF demo_starts, of 50])
      (simp_all add: demo_program_env_def connections_on_def on_listeners_def in_time_def)
qed

end
