(* ===== verification/Unit_Tests.thy ===== *)
theory Unit_Tests
  imports Program
begin

unbundle bit_operations_syntax

text \<open>
  The unit tests of the repository, translated from its \<open>tests\<close> modules, as a regression check of
  the definitions: a test is a predicate on the model that holds when all its assertions do, and
  the lemmas show that they hold. Where a test
  runs a peer in a task of its own, the peer is a script (\<open>peer_step\<close>). The current instant, the
  random draws and the cipher are arguments: the tests hold for all of them.
\<close>

section \<open>Tests of the gate (\<open>backoff.rs\<close>)\<close>

definition ws_backoff_expires_after_cooldown :: "nat \<Rightarrow> bool" where
  "ws_backoff_expires_after_cooldown now =
     (let key = (2, False);
          (d1, b1) = begin_probe key now backoff_default;
          b2 = record_failure key now b1;
          (d2, b3) = begin_probe key (now + 4000) b2;
          (d3, b4) = begin_probe key (now + 60000) b3
      in d1 = ProbeNow \<and> d2 = Cooldown \<and> d3 = ProbeNow)"

definition ws_backoff_can_be_cleared :: "nat \<Rightarrow> bool" where
  "ws_backoff_can_be_cleared now =
     (let key = (4, True);
          b1 = record_failure key now backoff_default;
          (d1, b2) = begin_probe key (now + 1000) b1;
          b3 = clear_probe key b2;
          (d2, b4) = begin_probe key (now + 1000) b3
      in d1 = Cooldown \<and> d2 = ProbeNow)"

definition ws_backoff_blocks_parallel_probe_window :: "nat \<Rightarrow> bool" where
  "ws_backoff_blocks_parallel_probe_window now =
     (let key = (2, True);
          (d1, b1) = begin_probe key now backoff_default;
          (d2, b2) = begin_probe key (now + 1000) b1
      in d1 = ProbeNow \<and> d2 = ProbeInFlight)"

definition ws_backoff_can_disable_404_for_runtime :: "nat \<Rightarrow> bool" where
  "ws_backoff_can_disable_404_for_runtime now =
     (let key = (5, False); b1 = disable_404 key backoff_default
      in fst (begin_probe key now b1) = Disabled404)"

lemma backoff_tests:
  "ws_backoff_expires_after_cooldown now" "ws_backoff_can_be_cleared now"
  "ws_backoff_blocks_parallel_probe_window now" "ws_backoff_can_disable_404_for_runtime now"
  by (simp_all add: ws_backoff_expires_after_cooldown_def ws_backoff_can_be_cleared_def
      ws_backoff_blocks_parallel_probe_window_def ws_backoff_can_disable_404_for_runtime_def
      Let_def case_prod_beta begin_probe_decision begin_probe_states record_failure_def disable_404_def
      clear_probe_def backoff_default_def retain_def WS_ATTEMPT_WINDOW_def WS_FAILURE_COOLDOWN_def)

section \<open>Tests of the catalogue, the addresses and the settings\<close>

definition telegram_ranges_work :: bool where
  "telegram_ranges_work =
     (is_telegram_ip ''91.108.0.1'' = Some True \<and> is_telegram_ip ''2001:67c:4e8::1'' = Some True
      \<and> is_telegram_ip ''1.1.1.1'' = Some False \<and> is_telegram_ip ''2001:db8::1'' = Some False)"

definition dc_lookup_works :: bool where
  "dc_lookup_works = (case ip_to_dc ''149.154.167.220'' of Some (Some got) \<Rightarrow> e_dc got = 2 | _ \<Rightarrow> False)"

definition extended_dc_lookup_works :: bool where
  "extended_dc_lookup_works =
     (case ip_to_dc ''149.154.166.120'' of Some (Some got) \<Rightarrow> e_dc got = 4 \<and> e_is_media got | _ \<Rightarrow> False)"

definition media_dc_lookup_works_for_167_35 :: bool where
  "media_dc_lookup_works_for_167_35 =
     (case ip_to_dc ''149.154.167.35'' of Some (Some got) \<Rightarrow> e_dc got = 2 \<and> e_is_media got | _ \<Rightarrow> False)"

lemma catalog_tests:
  "telegram_ranges_work" "dc_lookup_works" "extended_dc_lookup_works" "media_dc_lookup_works_for_167_35"
  by code_simp+

definition normalize_ipv6_host_removes_brackets :: bool where
  "normalize_ipv6_host_removes_brackets =
     (Listen.normalize_host ''[2001:db8::1]'' = ''2001:db8::1'' \<and> Listen.normalize_host ''2001:db8::1'' = ''2001:db8::1'')"

definition split_socket_addr_supports_bracketed_ipv6 :: bool where
  "split_socket_addr_supports_bracketed_ipv6 =
     (case split_host_port ''[2001:db8::1]:8080'' of Inr (host, port) \<Rightarrow> host = ''2001:db8::1'' \<and> port = 8080 | Inl e \<Rightarrow> False)"

definition split_socket_addr_supports_ipv4 :: bool where
  "split_socket_addr_supports_ipv4 =
     (case split_host_port ''0.0.0.0:8080'' of Inr (host, port) \<Rightarrow> host = ''0.0.0.0'' \<and> port = 8080 | Inl e \<Rightarrow> False)"

definition wildcard_detection_supports_both_families :: bool where
  "wildcard_detection_supports_both_families =
     (host_is_unspecified ''0.0.0.0'' \<and> host_is_unspecified ''::'' \<and> host_is_unspecified ''[::]''
      \<and> \<not> host_is_unspecified ''2001:db8::1'')"

lemma listen_tests:
  "normalize_ipv6_host_removes_brackets" "split_socket_addr_supports_bracketed_ipv6"
  "split_socket_addr_supports_ipv4" "wildcard_detection_supports_both_families"
  by code_simp+

definition telegram_link_formats_ipv4_host :: bool where
  "telegram_link_formats_ipv4_host =
     (telegram_socks_proxy_link ''127.0.0.1'' 1080 = ''tg://socks?server=127.0.0.1&port=1080'')"

definition telegram_link_formats_ipv6_host :: bool where
  "telegram_link_formats_ipv6_host =
     (telegram_socks_proxy_link ''2001:db8::1'' 1080 = ''tg://socks?server=[2001:db8::1]&port=1080'')"

text \<open>The command line parser of the crate \<open>clap\<close> is an argument.\<close>

definition routed_config_parses_socks_users :: "(string list \<Rightarrow> cli_config) \<Rightarrow> bool" where
  "routed_config_parses_socks_users parse_from =
     (case routed_config_try_from (parse_from [''tg-ws-proxy-rs'', ''--socks-users'', ''alice:one,bob:two'']) of
        Inr routed \<Rightarrow>
          (case socks_auth routed of
             Some auth \<Rightarrow> length (users auth) = 2 \<and> username (users auth ! 0) = ''alice'' \<and> password (users auth ! 1) = ''two''
           | None \<Rightarrow> False)
      | Inl e \<Rightarrow> False)"

lemma config_tests: "telegram_link_formats_ipv4_host" "telegram_link_formats_ipv6_host"
  by code_simp+

lemma users_test:
  assumes "cli_socks_users (parse_from [''tg-ws-proxy-rs'', ''--socks-users'', ''alice:one,bob:two'']) = ''alice:one,bob:two''"
  shows "routed_config_parses_socks_users parse_from"
proof -
  have "parse_socks_auth ''alice:one,bob:two''
      = Inr (Some \<lparr>users = [\<lparr>username = ''alice'', password = ''one''\<rparr>, \<lparr>username = ''bob'', password = ''two''\<rparr>]\<rparr>)"
    by code_simp
  with assms show ?thesis by (simp add: routed_config_parses_socks_users_def routed_config_try_from_def)
qed

section \<open>Tests of the SOCKS handshake (\<open>socks.rs\<close>)\<close>

text \<open>
  A peer of a test sends bytes and reads answers of a given length that have to pass a test. What
  it can read is what the other side has written when it has been sent only what the peer has sent
  before.
\<close>

datatype peer_step = Sends bytes | Reads nat "bytes \<Rightarrow> bool"

fun peer_runs :: "(stream \<Rightarrow> stream) \<Rightarrow> bytes \<Rightarrow> nat \<Rightarrow> peer_step list \<Rightarrow> bool" where
  "peer_runs side sent n [] = True"
| "peer_runs side sent n (Sends bs # steps) = peer_runs side (sent @ bs) n steps"
| "peer_runs side sent n (Reads k P # steps) =
     (let out = drop n (tx (side (open_stream sent Silent)))
      in k \<le> length out \<and> P (take k out) \<and> peer_runs side sent (n + k) steps)"

fun peer_sends :: "peer_step list \<Rightarrow> bytes" where
  "peer_sends [] = []"
| "peer_sends (Sends bs # steps) = bs @ peer_sends steps"
| "peer_sends (Reads k P # steps) = peer_sends steps"

text \<open>The handshake against a script: the peer's assertions, and a test of the result.\<close>

definition socks_test ::
    "socks_auth_config option \<Rightarrow> peer_step list \<Rightarrow> ((socks_command, socks_error) outcome \<Rightarrow> bool) \<Rightarrow> bool" where
  "socks_test auth steps P =
     (peer_runs (\<lambda>s. snd (handle_socks5_handshake auth s)) [] 0 steps
      \<and> P (fst (handle_socks5_handshake auth (open_stream (peer_sends steps) Silent))))"

definition ack_ok :: "bytes \<Rightarrow> bool" where
  "ack_ok ack = (ack ! 0 = 0x05 \<and> ack ! 1 = 0x00)"

definition parse_socks5_connect_ipv4 :: bool where
  "parse_socks5_connect_ipv4 =
     socks_test None
       [Sends [0x05, 0x02, 0x00, 0x02], Reads 2 (\<lambda>select. select = [0x05, 0x00]),
        Sends [0x05, 0x01, 0x00, 0x01, 127, 0, 0, 1, 0x1F, 0x90], Reads 10 ack_ok]
       (\<lambda>parsed. parsed = Ok (Connect ''127.0.0.1'' 8080))"

definition ipv6_check :: bool where
  "ipv6_check = (is_ipv6 ''2001:db8::1'' \<and> \<not> is_ipv6 ''8.8.8.8'')"

definition alice_auth :: "socks_auth_config option" where
  "alice_auth = (case parse_socks_auth ''alice:secret'' of Inr a \<Rightarrow> a | Inl e \<Rightarrow> None)"

definition parse_socks5_connect_with_auth :: bool where
  "parse_socks5_connect_with_auth =
     (alice_auth \<noteq> None \<and> socks_test alice_auth
       [Sends [0x05, 0x01, 0x02], Reads 2 (\<lambda>select. select = [0x05, 0x02]),
        Sends [0x01, 0x05], Sends (bytes_of ''alice''), Sends [0x06], Sends (bytes_of ''secret''),
        Reads 2 (\<lambda>auth_reply. auth_reply = [0x01, 0x00]),
        Sends [0x05, 0x01, 0x00, 0x01, 127, 0, 0, 1, 0x1F, 0x90], Reads 10 ack_ok]
       (\<lambda>parsed. parsed = Ok (Connect ''127.0.0.1'' 8080)))"

definition rejects_invalid_auth_credentials :: bool where
  "rejects_invalid_auth_credentials =
     (alice_auth \<noteq> None \<and> socks_test alice_auth
       [Sends [0x05, 0x01, 0x02], Reads 2 (\<lambda>select. select = [0x05, 0x02]),
        Sends [0x01, 0x05], Sends (bytes_of ''alice''), Sends [0x05], Sends (bytes_of ''wrong''),
        Reads 2 (\<lambda>auth_reply. auth_reply = [0x01, 0x01])]
       (\<lambda>err. err = Err AuthenticationFailed))"

definition rejects_when_client_does_not_offer_auth_method :: bool where
  "rejects_when_client_does_not_offer_auth_method =
     (alice_auth \<noteq> None \<and> socks_test alice_auth
       [Sends [0x05, 0x01, 0x00], Reads 2 (\<lambda>select. select = [0x05, 0xFF])]
       (\<lambda>err. err = Err NoAcceptableMethod))"

definition parse_multiple_socks_users_from_env :: bool where
  "parse_multiple_socks_users_from_env =
     (case parse_socks_auth (''alice:one,bob:two'' @ [CHR 0x0A] @ ''carol:three'') of
        Inr (Some auth) \<Rightarrow> length (users auth) = 3 \<and> username (users auth ! 1) = ''bob'' \<and> password (users auth ! 1) = ''two''
      | _ \<Rightarrow> False)"

lemma socks_tests:
  "parse_socks5_connect_ipv4" "ipv6_check" "parse_socks5_connect_with_auth"
  "rejects_invalid_auth_credentials" "rejects_when_client_does_not_offer_auth_method"
  "parse_multiple_socks_users_from_env"
  by code_simp+

section \<open>Tests of the WebSocket client (\<open>ws.rs\<close>)\<close>

definition parse_status_code :: bool where
  "parse_status_code = (parse_status (bytes_of ''HTTP/1.1 101 Switching Protocols'') = Inr 101)"

definition frame_format_has_mask_and_opcode :: "bytes option \<Rightarrow> bool" where
  "frame_format_has_mask_and_opcode rnd =
     (let frame = build_frame rnd (bytes_of ''abc'') in frame ! 0 = 0x82 \<and> frame ! 1 AND 0x80 \<noteq> 0)"

fun contains :: "string \<Rightarrow> string \<Rightarrow> bool" where
  "contains p [] = (p = [])"
| "contains p (c # s) = (prefix p (c # s) \<or> contains p s)"

definition lines :: "string \<Rightarrow> string list" where
  "lines s = map (\<lambda>l. case strip_suffix_char CHR 0x0D l of None \<Rightarrow> l | Some l' \<Rightarrow> l')
     (let ls = split_on (\<lambda>c. c = CHR 0x0A) s in if last ls = [] then butlast ls else ls)"

abbreviation sample_key :: string where
  "sample_key \<equiv> ''dGhlIHNhbXBsZSBub25jZQ==''"

abbreviation sample_accept :: string where
  "sample_accept \<equiv> ''s3pPLMBiTxaQ9kYGzzhZRbK+xOo=''"

text \<open>This test is about the hash and the encoding of other crates: it is what the next ones rely on.\<close>

definition websocket_accept_matches_rfc_sample :: "ws_net \<Rightarrow> bool" where
  "websocket_accept_matches_rfc_sample net = (websocket_accept net sample_key = sample_accept)"

definition handshake_request_contains_domain_header :: "ws_net \<Rightarrow> bool" where
  "handshake_request_contains_domain_header net =
     (let domain = ''test.dc.example''; req = build_handshake_request_with_key net domain sample_key in
      prefix (''GET /apiws HTTP/1.1'' @ crlf) (req_payload req)
      \<and> contains (''Host: '' @ domain @ crlf) (req_payload req)
      \<and> contains (''Upgrade: websocket'' @ crlf) (req_payload req)
      \<and> contains (''Connection: Upgrade'' @ crlf) (req_payload req)
      \<and> contains (''Cache-Control: no-cache'' @ crlf) (req_payload req)
      \<and> contains (''Pragma: no-cache'' @ crlf) (req_payload req)
      \<and> contains (''Sec-WebSocket-Protocol: binary'' @ crlf) (req_payload req)
      \<and> contains (''Accept-Encoding: gzip, deflate, br, zstd'' @ crlf) (req_payload req)
      \<and> contains (''Sec-WebSocket-Extensions: permessage-deflate; client_max_window_bits'' @ crlf) (req_payload req)
      \<and> contains ''User-Agent: Mozilla/5.0 (X11; Linux x86_64)'' (req_payload req)
      \<and> (case find (prefix ''Sec-WebSocket-Key: '') (lines (req_payload req)) of
            Some key_line \<Rightarrow> length key_line > length ''Sec-WebSocket-Key: ''
          | None \<Rightarrow> False)
      \<and> expected_accept req = sample_accept)"

text \<open>The tests of the validation: a response to the sample request, and the expected verdict.\<close>

definition validation_test :: "ws_net \<Rightarrow> string list \<Rightarrow> ws_error + unit \<Rightarrow> bool" where
  "validation_test net headers verdict =
     (let req = build_handshake_request_with_key net ''test.dc.example'' sample_key in
      case parse_handshake_response (bytes_of (concat (map (\<lambda>l. l @ crlf) (''HTTP/1.1 101 Switching Protocols'' # headers)) @ crlf)) of
        Inr response \<Rightarrow> validate_handshake_response response (expected_accept req) = verdict
      | Inl e \<Rightarrow> False)"

definition strict_handshake_validation_accepts_expected_headers :: "ws_net \<Rightarrow> bool" where
  "strict_handshake_validation_accepts_expected_headers net =
     validation_test net [''Upgrade: WebSocket'', ''Connection: keep-alive, Upgrade'',
       ''Sec-WebSocket-Accept: s3pPLMBiTxaQ9kYGzzhZRbK+xOo='', ''Sec-WebSocket-Protocol: binary''] (Inr ())"

definition strict_handshake_validation_rejects_missing_accept :: "ws_net \<Rightarrow> bool" where
  "strict_handshake_validation_rejects_missing_accept net =
     validation_test net [''Upgrade: websocket'', ''Connection: Upgrade'', ''Sec-WebSocket-Protocol: binary'']
       (Inl (Handshake ''missing_ws_accept''))"

definition strict_handshake_validation_rejects_connection_without_upgrade_token :: "ws_net \<Rightarrow> bool" where
  "strict_handshake_validation_rejects_connection_without_upgrade_token net =
     validation_test net [''Upgrade: websocket'', ''Connection: keep-alive'',
       ''Sec-WebSocket-Accept: s3pPLMBiTxaQ9kYGzzhZRbK+xOo='', ''Sec-WebSocket-Protocol: binary'']
       (Inl (Handshake ''missing_connection_upgrade''))"

definition strict_handshake_validation_rejects_wrong_protocol :: "ws_net \<Rightarrow> bool" where
  "strict_handshake_validation_rejects_wrong_protocol net =
     validation_test net [''Upgrade: websocket'', ''Connection: Upgrade'',
       ''Sec-WebSocket-Accept: s3pPLMBiTxaQ9kYGzzhZRbK+xOo='', ''Sec-WebSocket-Protocol: text'']
       (Inl (Handshake ''unexpected_ws_protocol''))"

definition oversized_response :: bytes where
  "oversized_response = bytes_of (''HTTP/1.1 101 Switching Protocols'' @ crlf) @ replicate 9000 0x61"

definition perform_handshake_rejects_oversized_headers :: "ws_net \<Rightarrow> bool" where
  "perform_handshake_rejects_oversized_headers net =
     (fst (perform_handshake net ''test.dc.example'' (open_stream oversized_response Eof))
       = Err (Handshake ''oversized_handshake_headers''))"

definition read_masked_frame :: bool where
  "read_masked_frame =
     (let payload = bytes_of ''pong''; mask = [0x11, 0x22, 0x33, 0x44];
          frame = [0x82, 0x80 OR word_of_nat (length payload)] @ mask
            @ map (\<lambda>(i, b). b XOR mask ! (i mod 4)) (enumerate 0 payload)
      in fst (read_frame (open_stream frame Eof)) = Ok (Some (Binary (bytes_of ''pong''))))"

definition read_ping_then_binary :: "bytes option \<Rightarrow> bool" where
  "read_ping_then_binary rnd =
     (let (ping, s1) = read_frame (open_stream ([0x89, 0x03] @ bytes_of ''abc'' @ build_frame rnd (bytes_of ''ok'')) Eof);
          (binary, s2) = read_frame s1
      in (case ping of Ok (Some (Ping p)) \<Rightarrow> True | _ \<Rightarrow> False) \<and> binary = Ok (Some (Binary (bytes_of ''ok''))))"

definition read_close_frame_with_code :: bool where
  "read_close_frame_with_code =
     (fst (read_frame (open_stream [0x88, 0x02, 0x03, 0xE8] Eof)) = Ok (Some (Close \<lparr>code = Some 1000, reason = None\<rparr>)))"

lemma closed_ws_tests: "parse_status_code" "read_masked_frame" "read_close_frame_with_code"
  by code_simp+

lemma frame_tests:
  assumes "wf_mask rnd"
  shows "frame_format_has_mask_and_opcode rnd" "read_ping_then_binary rnd"
proof -
  show "frame_format_has_mask_and_opcode rnd"
    by (simp add: frame_format_has_mask_and_opcode_def build_frame_def build_frame_with_opcode_def frame_length_def)
  let ?ok = "build_frame rnd (bytes_of ''ok'')"
  let ?s = "open_stream ([0x89, 0x03] @ bytes_of ''abc'' @ ?ok) Eof"
  have "read_frame ?s = (Ok (Some (Ping (bytes_of ''abc''))), ?s\<lparr>rx := ?ok\<rparr>)"
  proof -
    have "server_bytes (0x89, bytes_of ''abc'') = [0x89, 0x03] @ bytes_of ''abc''"
      "server_view (0x89, bytes_of ''abc'') = Ping (bytes_of ''abc'')" by code_simp+
    moreover have "wf_server_frame (0x89, bytes_of ''abc'')" by (simp add: wf_server_frame_def isize_max_def)
    ultimately show ?thesis using read_server_frame [of "(0x89, bytes_of ''abc'')" ?s ?ok] by simp
  qed
  moreover have "read_frame (?s\<lparr>rx := ?ok\<rparr>) = (Ok (Some (Binary (bytes_of ''ok''))), ?s\<lparr>rx := []\<rparr>)"
    using read_client_frame [of "(rnd, 0x2, bytes_of ''ok'')" "?s\<lparr>rx := ?ok\<rparr>" "[]"] assms
    by (simp add: isize_max_def frame_of_opcode_def build_frame_def)
  ultimately show "read_ping_then_binary rnd" by (simp add: read_ping_then_binary_def)
qed

text \<open>The request text is a list of lines; what a line ends with is found behind the lines before it.\<close>

lemma contains_here: "prefix l l' \<Longrightarrow> contains l (l' @ s)"
  "contains (l @ crlf) (l @ crlf @ s)" "contains (l @ m @ crlf) (l @ m @ crlf @ s)"
proof -
  have p: "contains l s" if "prefix l s" for l s using that by (cases s) auto
  then show "prefix l l' \<Longrightarrow> contains l (l' @ s)" by (auto simp: prefix_def)
  show "contains (l @ crlf) (l @ crlf @ s)" "contains (l @ m @ crlf) (l @ m @ crlf @ s)" by (rule p, simp)+
qed

lemma contains_later: "contains p s \<Longrightarrow> contains p (a @ s)"
  by (induction a) auto

lemma request_contains:
  defines "payload \<equiv> \<lambda>net domain key. req_payload (build_handshake_request_with_key net domain key)"
  shows "contains (''Host: '' @ domain @ crlf) (payload net domain key)"
    "contains (''Upgrade: websocket'' @ crlf) (payload net domain key)"
    "contains (''Connection: Upgrade'' @ crlf) (payload net domain key)"
    "contains (''Cache-Control: no-cache'' @ crlf) (payload net domain key)"
    "contains (''Pragma: no-cache'' @ crlf) (payload net domain key)"
    "contains (''Sec-WebSocket-Protocol: binary'' @ crlf) (payload net domain key)"
    "contains (''Accept-Encoding: gzip, deflate, br, zstd'' @ crlf) (payload net domain key)"
    "contains (''Sec-WebSocket-Extensions: permessage-deflate; client_max_window_bits'' @ crlf) (payload net domain key)"
  unfolding payload_def build_handshake_request_with_key_def ws_handshake_request.simps
  by (rule contains_here(2,3) | rule contains_later)+

lemma request_contains_agent:
  "contains ''User-Agent: Mozilla/5.0 (X11; Linux x86_64)'' (req_payload (build_handshake_request_with_key net domain key))"
proof -
  have "prefix ''User-Agent: Mozilla/5.0 (X11; Linux x86_64)''
      ''User-Agent: Mozilla/5.0 (X11; Linux x86_64) AppleWebKit/537.36 (KHTML, like Gecko) Chrome/145.0.0.0 Safari/537.36''"
    by simp
  note agent = contains_here(1) [OF this]
  show ?thesis
    unfolding build_handshake_request_with_key_def ws_handshake_request.simps
    by (rule agent | rule contains_later)+
qed

lemma lines_crlf:
  assumes "\<forall>l \<in> set ls. CHR 0x0A \<notin> set l"
  shows "lines (concat (map (\<lambda>l. l @ crlf) ls)) = ls"
proof -
  have e: "concat (map (\<lambda>l. l @ crlf) ls) = concat (map (\<lambda>l. l @ [CHR 0x0A]) (map (\<lambda>l. l @ [CHR 0x0D]) ls))"
    by (simp add: crlf_def comp_def)
  have s: "split_on (\<lambda>c. c = CHR 0x0A) (concat (map (\<lambda>l. l @ crlf) ls)) = map (\<lambda>l. l @ [CHR 0x0D]) ls @ [[]]"
    unfolding e by (rule split_on_lines) (use assms in auto)
  show ?thesis by (simp add: lines_def s comp_def strip_suffix_char_def strip_prefix_char_def)
qed

lemma request_lines:
  assumes "CHR 0x0A \<notin> set domain" "CHR 0x0A \<notin> set key"
  shows "find (prefix ''Sec-WebSocket-Key: '') (lines (req_payload (build_handshake_request_with_key net domain key)))
    = Some (''Sec-WebSocket-Key: '' @ key)"
proof -
  let ?ls = "[''GET /apiws HTTP/1.1'', ''Host: '' @ domain, ''Upgrade: websocket'', ''Connection: Upgrade'',
    ''Cache-Control: no-cache'', ''Pragma: no-cache'', ''Sec-WebSocket-Key: '' @ key, ''Sec-WebSocket-Version: 13'',
    ''Sec-WebSocket-Protocol: binary'', ''Origin: https://web.telegram.org'', ''Accept-Encoding: gzip, deflate, br, zstd'',
    ''User-Agent: Mozilla/5.0 (X11; Linux x86_64) AppleWebKit/537.36 (KHTML, like Gecko) Chrome/145.0.0.0 Safari/537.36'',
    ''Sec-WebSocket-Extensions: permessage-deflate; client_max_window_bits'', []]"
  have "req_payload (build_handshake_request_with_key net domain key) = concat (map (\<lambda>l. l @ crlf) ?ls)"
    by (simp only: build_handshake_request_with_key_def ws_handshake_request.simps list.map concat.simps append_assoc
        append_Nil append_Nil2)
  moreover have "\<forall>l \<in> set ?ls. CHR 0x0A \<notin> set l" using assms by simp
  ultimately show ?thesis by (simp only: lines_crlf) simp
qed

lemma request_test:
  assumes "websocket_accept_matches_rfc_sample net"
  shows "handshake_request_contains_domain_header net"
proof -
  have "CHR 0x0A \<notin> set ''test.dc.example''" "CHR 0x0A \<notin> set sample_key" by simp_all
  note key = request_lines [OF this, of net]
  have "prefix (''GET /apiws HTTP/1.1'' @ crlf) (req_payload (build_handshake_request_with_key net domain key))" for domain key
    by (simp add: build_handshake_request_with_key_def)
  moreover have "expected_accept (build_handshake_request_with_key net domain sample_key) = sample_accept" for domain
    using assms by (simp add: build_handshake_request_with_key_def websocket_accept_matches_rfc_sample_def)
  ultimately show ?thesis
    unfolding handshake_request_contains_domain_header_def Let_def key
    by (intro conjI request_contains request_contains_agent) simp_all
qed

text \<open>The responses are in the printed form whose parse \<open>Ws_Handshake\<close> knows.\<close>

lemma validation_test_run:
  assumes "websocket_accept_matches_rfc_sample net" "list_all wf_header hs" "headers = map header_text hs"
    and "validate_handshake_response (fold (\<lambda>h. set_header (fst h) (snd h)) hs (empty_response 101)) sample_accept = verdict"
  shows "validation_test net headers verdict"
proof -
  have "status_text 101 ''Switching Protocols'' = ''HTTP/1.1 101 Switching Protocols''" by code_simp
  then have "concat (map (\<lambda>l. l @ crlf) (''HTTP/1.1 101 Switching Protocols'' # headers)) @ crlf
      = response_text 101 ''Switching Protocols'' hs" by (simp add: response_text_def assms(3))
  moreover have "\<forall>c \<in> set ''Switching Protocols''. printable c" by code_simp
  moreover have "\<forall>h \<in> set hs. wf_header h" using assms(2) by (simp add: list_all_iff)
  ultimately show ?thesis
    using assms(1,4) parse_response_text [of hs "''Switching Protocols''" 101]
    by (simp add: validation_test_def build_handshake_request_with_key_def websocket_accept_matches_rfc_sample_def)
qed

lemma validation_tests:
  assumes "websocket_accept_matches_rfc_sample net"
  shows "strict_handshake_validation_accepts_expected_headers net"
    "strict_handshake_validation_rejects_missing_accept net"
    "strict_handshake_validation_rejects_connection_without_upgrade_token net"
    "strict_handshake_validation_rejects_wrong_protocol net"
proof -
  let ?up = "(''Upgrade'', ''websocket'')" and ?acc = "(''Sec-WebSocket-Accept'', ''s3pPLMBiTxaQ9kYGzzhZRbK+xOo='')"
    and ?bin = "(''Sec-WebSocket-Protocol'', ''binary'')"
  note run = validation_test_run [OF assms]
  show "strict_handshake_validation_accepts_expected_headers net"
    unfolding strict_handshake_validation_accepts_expected_headers_def
    by (rule run [of "[(''Upgrade'', ''WebSocket''), (''Connection'', ''keep-alive, Upgrade''), ?acc, ?bin]"]) code_simp+
  show "strict_handshake_validation_rejects_missing_accept net"
    unfolding strict_handshake_validation_rejects_missing_accept_def
    by (rule run [of "[?up, (''Connection'', ''Upgrade''), ?bin]"]) code_simp+
  show "strict_handshake_validation_rejects_connection_without_upgrade_token net"
    unfolding strict_handshake_validation_rejects_connection_without_upgrade_token_def
    by (rule run [of "[?up, (''Connection'', ''keep-alive''), ?acc, ?bin]"]) code_simp+
  show "strict_handshake_validation_rejects_wrong_protocol net"
    unfolding strict_handshake_validation_rejects_wrong_protocol_def
    by (rule run [of "[?up, (''Connection'', ''Upgrade''), ?acc, (''Sec-WebSocket-Protocol'', ''text'')]"]) code_simp+
qed

lemma oversized_test:
  assumes "getrandom16 net = Inr key"
  shows "perform_handshake_rejects_oversized_headers net"
proof -
  obtain req where req: "build_handshake_request net ''test.dc.example'' = Inr req"
    using assms by (simp add: build_handshake_request_def websocket_key_def)
  have "count_list (bytes_of (''HTTP/1.1 101 Switching Protocols'' @ crlf)) 0x0D = 1" by code_simp
  then have "count_list oversized_response 0x0D = 1"
    by (simp only: oversized_response_def count_list_append) (simp add: count_list_0_iff)
  then have le: "count_list (take k oversized_response) 0x0D \<le> 1" for k
    by (metis append_take_drop_id count_list_append le_add1)
  have no: "\<not> suffix header_end (take k oversized_response)" for k
  proof
    assume "suffix header_end (take k oversized_response)"
    then obtain x where "take k oversized_response = x @ header_end" by (auto simp: suffix_def)
    with le [of k] show False by (simp add: header_end_def)
  qed
  let ?s = "(open_stream oversized_response Eof)\<lparr>tx := bytes_of (req_payload req)\<rparr>"
  have "8192 \<le> length oversized_response" by (simp add: oversized_response_def)
  with no have r: "read_handshake_headers ?s
      = (Err (Handshake ''oversized_handshake_headers''), ?s\<lparr>rx := drop 8192 oversized_response\<rparr>)"
    using read_handshake_headers_oversized [of ?s] by simp
  have w: "wsio (write_all (bytes_of (req_payload req))) (open_stream oversized_response Eof) = (Ok (), ?s)"
    by (rule wsio_Ok) simp
  show ?thesis
    by (simp add: perform_handshake_rejects_oversized_headers_def perform_handshake_def req io_of_sum_def io_bind_def w r)
qed

section \<open>Tests with an encrypted init packet (\<open>init.rs\<close>, \<open>splitter.rs\<close>, \<open>routing.rs\<close>)\<close>

text \<open>The helper of the tests: a packet whose header names a data centre; \<open>None\<close> if \<open>unwrap\<close> fails.\<close>

definition test_init :: "byte \<Rightarrow> byte \<Rightarrow> bytes" where
  "test_init k v = replicate 8 0 @ replicate 32 k @ replicate 16 v @ replicate 8 0"

definition build_init_with :: "byte \<Rightarrow> byte \<Rightarrow> 'c cipher_api \<Rightarrow> i16 \<Rightarrow> bytes option" where
  "build_init_with k v C dc =
     (let init = test_init k v in
      case new_from_slices C (slice 8 40 init) (slice 40 56 init) of
        None \<Rightarrow> None
      | Some c \<Rightarrow>
          let stream = fst (apply_keystream C c (replicate 64 0));
              plain = to_le_bytes 4 (0xEFEFEFEF :: u32) @ to_le_bytes 2 dc @ [0, 0]
          in Some (take 56 init @ map (\<lambda>idx. stream ! (56 + idx) XOR plain ! idx) [0..<8]))"

definition build_init :: "'c cipher_api \<Rightarrow> i16 \<Rightarrow> bytes option" where
  "build_init = build_init_with 7 9"

definition route_build_init :: "'c cipher_api \<Rightarrow> i16 \<Rightarrow> bytes option" where
  "route_build_init = build_init_with 3 4"

definition extract_dc_reads_non_media_and_media :: "'c cipher_api \<Rightarrow> bool" where
  "extract_dc_reads_non_media_and_media C =
     (case (build_init C 3, build_init C (-4)) of
        (Some a, Some b) \<Rightarrow>
          i_dc (extract_dc C a) = Some 3 \<and> \<not> i_is_media (extract_dc C a)
          \<and> i_dc (extract_dc C b) = Some 4 \<and> i_is_media (extract_dc C b)
      | _ \<Rightarrow> False)"

definition patch_init_dc_updates_encoded_dc :: "'c cipher_api \<Rightarrow> bool" where
  "patch_init_dc_updates_encoded_dc C =
     (case build_init C 0 of
        Some init \<Rightarrow>
          let patched = patch_init_dc C init 2; patched_media = patch_init_dc C init (-5)
          in i_dc (extract_dc C patched) = Some 2 \<and> \<not> i_is_media (extract_dc C patched)
             \<and> i_dc (extract_dc C patched_media) = Some 5 \<and> i_is_media (extract_dc C patched_media)
      | None \<Rightarrow> False)"

definition short_buffers_are_left_unchanged :: "'c cipher_api \<Rightarrow> bool" where
  "short_buffers_are_left_unchanged C =
     (let data = [1, 2, 3] in
      patch_init_dc C data 2 = data \<and> extract_dc C data = \<lparr>i_dc = None, i_is_media = False\<rparr>)"

definition mtproto_split_small_batch :: bool where
  "mtproto_split_small_batch =
     (let data = [0x04, 1, 2, 3, 4, 0x00, 0x03, 9, 9, 9, 0x7f, 2, 0, 0, 9, 9];
          parts = split_plain_mtproto_messages data
      in length parts = 1 \<and> parts ! 0 = data)"

definition stateful_splitter_splits_two_messages :: "'c cipher_api \<Rightarrow> bool" where
  "stateful_splitter_splits_two_messages C =
     (let init = test_init 1 2 in
      case (new_from_slices C (slice 8 40 init) (slice 40 56 init), splitter_new C init) of
        (Some enc, Some splitter) \<Rightarrow>
          let enc1 = snd (apply_keystream C enc (replicate 64 0));
              plain = [0x01, 1, 2, 3, 4, 0x01, 5, 6, 7, 8];
              chunk = fst (apply_keystream C enc1 plain);
              parts = fst (split_chunk C splitter chunk)
          in length parts = 2 \<and> length (parts ! 0) = 5 \<and> length (parts ! 1) = 5
      | _ \<Rightarrow> False)"

definition route_rules :: bool where
  "route_rules =
     (route_decision ''8.8.8.8'' 443 False = Some ''tcp_passthrough''
      \<and> route_decision ''149.154.175.50'' 443 True = Some ''ws_only''
      \<and> route_decision ''2001:67c:4e8::1'' 443 True = Some ''ws_only''
      \<and> route_decision ''2001:db8::1'' 443 True = Some ''tcp_passthrough''
      \<and> route_decision ''149.154.175.50'' 443 False = Some ''unknown_dc''
      \<and> route_decision ''2001:67c:4e8::1'' 443 False = Some ''unknown_dc'')"

definition resolve_telegram_init_patches_from_static_ipv4_mapping :: "'c cipher_api \<Rightarrow> ipv6_dc_cache \<Rightarrow> bool" where
  "resolve_telegram_init_patches_from_static_ipv4_mapping C cache =
     (case Option.bind (route_build_init C 0) (resolve_telegram_init C cache ''149.154.167.220'') of
        Some resolved \<Rightarrow> i_dc (info resolved) = Some 2 \<and> \<not> i_is_media (info resolved) \<and> patched resolved
      | None \<Rightarrow> False)"

definition resolve_telegram_init_uses_learned_ipv6_mapping :: "'c cipher_api \<Rightarrow> ipv6_dc_cache \<Rightarrow> bool" where
  "resolve_telegram_init_uses_learned_ipv6_mapping C cache =
     (let host = ''2001:67c:4e8::1234'';
          cache' = remember_ipv6_entry host \<lparr>e_dc = 4, e_is_media = True\<rparr> cache
      in case Option.bind (route_build_init C 0) (resolve_telegram_init C cache' host) of
           Some resolved \<Rightarrow> i_dc (info resolved) = Some 4 \<and> i_is_media (info resolved) \<and> patched resolved
         | None \<Rightarrow> False)"

definition unknown_dc_for_ipv6_falls_back_to_passthrough :: bool where
  "unknown_dc_for_ipv6_falls_back_to_passthrough =
     (unknown_dc_action True = DirectPassthrough \<and> unknown_dc_action False = CloseClient)"

lemma closed_routing_tests:
  "mtproto_split_small_batch" "route_rules" "unknown_dc_for_ipv6_falls_back_to_passthrough"
  by code_simp+

lemma short_buffer_test: "short_buffers_are_left_unchanged C"
  by (simp add: short_buffers_are_left_unchanged_def patch_init_dc_def extract_dc_def)

context stream_cipher
begin

lemma build_init_packet:
  obtains init where "build_init_with k v C dc = Some init" "length init = 64"
    "init_tag C init = 0xEFEFEFEF" "extract_dc C init = info_of_raw dc"
proof -
  let ?pre = "replicate 8 0 @ replicate 32 k @ replicate 16 v"
  have sl: "slice 8 40 (test_init k v) = slice 8 40 ?pre" "slice 40 56 (test_init k v) = slice 40 56 ?pre"
    and pre: "take 56 (test_init k v) = ?pre" "length ?pre = 56"
    by (simp_all add: test_init_def slice_def)
  obtain c where c: "new_from_slices C (slice 8 40 ?pre) (slice 40 56 ?pre) = Some c"
    using new_obtain [of "slice 8 40 ?pre" "slice 40 56 ?pre"] pre(2) by auto
  let ?plain = "to_le_bytes 4 (0xEFEFEFEF :: u32) @ to_le_bytes 2 dc @ [0, 0]"
  have "map (\<lambda>idx. fst (apply_keystream C c (replicate 64 0)) ! (56 + idx) XOR ?plain ! idx) [0..<8]
      = xor_with (\<lambda>i. ks c (56 + i)) ?plain"
    by (rule nth_equalityI) (simp_all add: apply_zeros xor.commute)
  then have "build_init_with k v C dc = Some (init_packet (ks c) ?pre ?plain)"
    using c pre by (simp add: build_init_with_def sl init_packet_def Let_def)
  moreover have "length (init_packet (ks c) ?pre ?plain) = 64" by (simp add: init_packet_def)
  ultimately show ?thesis
    using that extract_init_packet [OF pre(2) _ c, of "[0, 0]" "0xEFEFEFEF" dc] by (simp add: known_tag_def)
qed

lemma init_tests: "extract_dc_reads_non_media_and_media C" "patch_init_dc_updates_encoded_dc C"
proof -
  have raw: "info_of_raw 3 = \<lparr>i_dc = Some 3, i_is_media = False\<rparr>" "info_of_raw (-4) = \<lparr>i_dc = Some 4, i_is_media = True\<rparr>"
    "info_of_raw 2 = \<lparr>i_dc = Some 2, i_is_media = False\<rparr>" "info_of_raw (-5) = \<lparr>i_dc = Some 5, i_is_media = True\<rparr>"
    by (simp_all add: info_of_raw_def unsigned_abs_def Let_def)
  obtain a where a: "build_init C 3 = Some a" "extract_dc C a = info_of_raw 3"
    using build_init_packet unfolding build_init_def by metis
  obtain b where b: "build_init C (-4) = Some b" "extract_dc C b = info_of_raw (-4)"
    using build_init_packet unfolding build_init_def by metis
  show "extract_dc_reads_non_media_and_media C"
    using a b by (simp add: extract_dc_reads_non_media_and_media_def raw)
  obtain z where z: "build_init C 0 = Some z" "length z = 64" "init_tag C z = 0xEFEFEFEF"
    using build_init_packet unfolding build_init_def by metis
  then have "extract_dc C (patch_init_dc C z d) = info_of_raw d" for d
    using extract_patched [of z d] by (simp add: known_tag_def)
  with z(1) show "patch_init_dc_updates_encoded_dc C"
    by (simp add: patch_init_dc_updates_encoded_dc_def raw Let_def)
qed

lemma splitter_test: "stateful_splitter_splits_two_messages C"
proof -
  let ?init = "test_init 1 2"
  obtain c where c: "new_from_slices C (slice 8 40 ?init) (slice 40 56 ?init) = Some c"
    using new_obtain [of "slice 8 40 ?init" "slice 40 56 ?init"] by (auto simp: test_init_def)
  let ?c1 = "snd (apply_keystream C c (replicate 64 0))"
  have sp: "splitter_new C ?init = Some \<lparr>cipher = ?c1\<rparr>"
    using c by (simp add: splitter_new_def Let_def test_init_def)
  let ?plain = "[0x01, 1, 2, 3, 4, 0x01, 5, 6, 7, 8] :: bytes"
  have pl: "?plain = concat (map abridged [[1, 2, 3, 4], [5, 6, 7, 8]])" by (simp add: abridged_def)
  have "map length (fst (split_chunk C \<lparr>cipher = ?c1\<rparr> (fst (apply_keystream C ?c1 ?plain))))
      = map (\<lambda>p. length (abridged p)) [[1, 2, 3, 4], [5, 6, 7, 8]]"
    by (rule split_chunk_abridged) (simp_all add: wf_payload_def apply_data pl)
  then have "map length (fst (split_chunk C \<lparr>cipher = ?c1\<rparr> (fst (apply_keystream C ?c1 ?plain)))) = [5, 5]"
    by (simp add: abridged_def)
  then show ?thesis
    by (auto simp: stateful_splitter_splits_two_messages_def c sp Let_def map_eq_Cons_conv)
qed

lemma resolve_tests:
  "resolve_telegram_init_patches_from_static_ipv4_mapping C cache"
  "resolve_telegram_init_uses_learned_ipv6_mapping C cache"
proof -
  obtain z where z: "route_build_init C 0 = Some z" "extract_dc C z = info_of_raw 0"
    using build_init_packet unfolding route_build_init_def by metis
  have p4: "ipv6_from_str ''149.154.167.220'' = None" by code_simp
  have e: "ip_to_dc ''149.154.167.220'' = Some (Some \<lparr>e_dc = 2, e_is_media = False\<rparr>)" by code_simp
  show "resolve_telegram_init_patches_from_static_ipv4_mapping C cache"
    using z by (simp add: resolve_telegram_init_patches_from_static_ipv4_mapping_def resolve_telegram_init_def info_of_raw_0
        or_static_def learned_ipv6_entry_def p4 e Let_def)
  have "ipv6_from_str ''2001:67c:4e8::1234'' \<noteq> None" by code_simp
  then obtain a where "ipv6_from_str ''2001:67c:4e8::1234'' = Some a" by blast
  then show "resolve_telegram_init_uses_learned_ipv6_mapping C cache"
    using z by (simp add: resolve_telegram_init_uses_learned_ipv6_mapping_def resolve_telegram_init_def info_of_raw_0
        or_static_def learned_ipv6_entry_def remember_ipv6_entry_def Let_def)
qed

end

section \<open>Tests of the TCP relay (\<open>relay.rs\<close>)\<close>

text \<open>
  The echo peer of both tests: it reads exactly 12 bytes and writes them back. \<open>echoed\<close> is what it
  writes when it has been sent the given bytes on a connection that stays open.
\<close>

definition echo_peer :: "(stream, unit, io_error) io" where
  "echo_peer = io_bind (read_exact 12) write_all"

definition echoed :: "bytes \<Rightarrow> bytes" where
  "echoed sent = tx (snd (echo_peer (open_stream sent Silent)))"

text \<open>
  The network of the tests: the peer is this one, and the runtime's copy has carried everything
  both ways and goes on waiting, because the client keeps its connection open.
\<close>

definition echo_net :: tcp_net where
  "echo_net = \<lparr>connect_host = (\<lambda>h p. Inr (open_stream [] Silent)),
     copy_bidirectional = (\<lambda>c r.
       let sent = tx r @ rx c
       in (Pending, c\<lparr>rx := [], tx := tx c @ echoed sent\<rparr>, r\<lparr>tx := sent\<rparr>))\<rparr>"

text \<open>The last read of the test's client, of \<open>n\<close> bytes of what the relay has written to it.\<close>

definition client_reads :: "nat \<Rightarrow> (unit, io_error) outcome \<times> stream \<times> stream option \<Rightarrow> (bytes, io_error) outcome" where
  "client_reads n r = fst (read_exact n (open_stream (tx (fst (snd r))) Silent))"

definition tcp_to_tcp_bridge :: "u16 \<Rightarrow> (bytes, io_error) outcome" where
  "tcp_to_tcp_bridge port =
     client_reads 5 (bridge_tcp_tcp echo_net (open_stream (bytes_of ''hello'') Silent) ''127.0.0.1'' port)"

definition tcp_to_tcp_bridge_preserves_prelude :: "u16 \<Rightarrow> (bytes, io_error) outcome" where
  "tcp_to_tcp_bridge_preserves_prelude port =
     client_reads 12
       (bridge_tcp_tcp_with_prelude echo_net (open_stream (bytes_of ''-payload'') Silent) ''127.0.0.1'' port (bytes_of ''init''))"

lemmas relay_test_simps = client_reads_def bridge_tcp_tcp_def bridge_tcp_tcp_with_prelude_def echo_net_def echoed_def
  echo_peer_def io_bind_def read_exact_def at_rx_end_def write_all_def Let_def open_stream_def bytes_of_def

lemma relay_test: "tcp_to_tcp_bridge_preserves_prelude port = Ok (bytes_of ''init-payload'')"
  by (simp add: tcp_to_tcp_bridge_preserves_prelude_def relay_test_simps)

text \<open>
  The echo peer of the first test waits for 12 bytes and gets five, so the client's read, which
  has no timeout, never ends, and the test neither.
\<close>

lemma relay_test_waits: "tcp_to_tcp_bridge port = Pending"
  by (simp add: tcp_to_tcp_bridge_def relay_test_simps)

section \<open>The tests hold\<close>

text \<open>The tests whose outcome does not depend on code of other crates.\<close>

definition plain_tests :: "nat \<Rightarrow> u16 \<Rightarrow> bool" where
  "plain_tests now port \<longleftrightarrow>
     ws_backoff_expires_after_cooldown now \<and> ws_backoff_can_be_cleared now
     \<and> ws_backoff_blocks_parallel_probe_window now \<and> ws_backoff_can_disable_404_for_runtime now
     \<and> telegram_ranges_work \<and> dc_lookup_works \<and> extended_dc_lookup_works \<and> media_dc_lookup_works_for_167_35
     \<and> normalize_ipv6_host_removes_brackets \<and> split_socket_addr_supports_bracketed_ipv6
     \<and> split_socket_addr_supports_ipv4 \<and> wildcard_detection_supports_both_families
     \<and> telegram_link_formats_ipv4_host \<and> telegram_link_formats_ipv6_host
     \<and> parse_socks5_connect_ipv4 \<and> ipv6_check \<and> parse_socks5_connect_with_auth
     \<and> rejects_invalid_auth_credentials \<and> rejects_when_client_does_not_offer_auth_method
     \<and> parse_multiple_socks_users_from_env
     \<and> parse_status_code \<and> read_masked_frame \<and> read_close_frame_with_code
     \<and> mtproto_split_small_batch \<and> route_rules \<and> unknown_dc_for_ipv6_falls_back_to_passthrough
     \<and> tcp_to_tcp_bridge_preserves_prelude port = Ok (bytes_of ''init-payload'')"

text \<open>The tests that draw random bytes, encrypt, or check the answer to the RFC's sample key.\<close>

definition crate_tests :: "ws_net \<Rightarrow> bytes option \<Rightarrow> 'c cipher_api \<Rightarrow> ipv6_dc_cache \<Rightarrow> bool" where
  "crate_tests net rnd C cache \<longleftrightarrow>
     frame_format_has_mask_and_opcode rnd \<and> read_ping_then_binary rnd
     \<and> handshake_request_contains_domain_header net
     \<and> strict_handshake_validation_accepts_expected_headers net
     \<and> strict_handshake_validation_rejects_missing_accept net
     \<and> strict_handshake_validation_rejects_connection_without_upgrade_token net
     \<and> strict_handshake_validation_rejects_wrong_protocol net
     \<and> perform_handshake_rejects_oversized_headers net
     \<and> extract_dc_reads_non_media_and_media C \<and> patch_init_dc_updates_encoded_dc C \<and> short_buffers_are_left_unchanged C
     \<and> stateful_splitter_splits_two_messages C
     \<and> resolve_telegram_init_patches_from_static_ipv4_mapping C cache
     \<and> resolve_telegram_init_uses_learned_ipv6_mapping C cache"

text \<open>
  The model passes the repository's unit tests, with one exception: at every instant, for
  every outcome of the random draws, every cipher that works as a stream cipher, every state of the
  learned table, every command line parser that stores the value of \<open>--socks-users\<close>, and every
  network whose hash and encoding answer the sample key of RFC 6455 with the sample answer, all
  assertions of all tests hold; except that the client of the test \<open>tcp_to_tcp_bridge\<close> waits for
  ever. The test \<open>cli_defaults_to_listen_on_all_interfaces\<close> is one of the command line parser only.
\<close>

lemma unit_tests_pass:
  assumes "stream_cipher C ks" "websocket_accept_matches_rfc_sample net" "getrandom16 net = Inr key" "wf_mask rnd"
    and "cli_socks_users (parse_from [''tg-ws-proxy-rs'', ''--socks-users'', ''alice:one,bob:two'']) = ''alice:one,bob:two''"
  shows "plain_tests now port \<and> crate_tests net rnd C cache \<and> routed_config_parses_socks_users parse_from
    \<and> tcp_to_tcp_bridge port = Pending"
  using assms(4)
  by (simp add: plain_tests_def crate_tests_def backoff_tests catalog_tests listen_tests config_tests
      users_test [of parse_from, OF assms(5)] socks_tests
      closed_ws_tests closed_routing_tests relay_test relay_test_waits frame_tests request_test [OF assms(2)]
      validation_tests [OF assms(2)] oversized_test [OF assms(3)] short_buffer_test
      stream_cipher.init_tests [OF assms(1)] stream_cipher.splitter_test [OF assms(1)]
      stream_cipher.resolve_tests [OF assms(1)])

end
