(* ===== verification/Spec2Isabelle.thy ===== *)
theory Spec2Isabelle
  imports Catalog Splitter Socks Ws_Handshake Relay Backoff Ipv6_Cache Config Routing Listen Server Pool_Stats
    Index_Checks Panic_Free Program Unit_Tests
begin

text \<open>
  A verification development of tg-ws-proxy-rs, a SOCKS5 proxy that relays Telegram clients
  over Telegram's WebSocket endpoints.

  The program. A client connects, optionally logs in and names a target (\<open>modules/socks.rs\<close>).
  A target outside the Telegram address ranges (\<open>telegram/catalog.rs\<close>) is connected to
  directly. For a Telegram target the proxy reads the 64-byte obfuscated init packet of the
  MTProto transport, finds the data centre in it or in the learned and static tables, and
  patches it in when it was missing (\<open>telegram/init.rs\<close>, \<open>routing/ipv6_cache.rs\<close>). A gate per
  data centre (\<open>routing/backoff.rs\<close>) decides whether connecting may start; then the hosts of
  the data centre are tried in order (\<open>modules/ws.rs\<close>) and the client is bridged to the first
  that accepts, each MTProto message in a WebSocket frame of its own (\<open>modules/relay.rs\<close>,
  \<open>telegram/splitter.rs\<close>). \<open>modules/routing.rs\<close> composes all this, \<open>runtime/server.rs\<close> runs it
  for every accepted client.

  The theories, in the order of their dependencies. Paths are under \<open>src/src\<close>.
  \<^item> \<open>Prelude\<close>: word types, byte order conversions, xoring a list with a keystream.
  \<^item> \<open>Rust_Str\<close>, \<open>Ascii_Text\<close>: strings as UTF-8 byte sequences, with the methods of \<open>str\<close>
    the program calls, and integer printing and parsing.
  \<^item> \<open>Io_Stream\<close>: byte streams with what their peer does (what it sends, how much it takes and what
    a write beyond that meets, how a shutdown goes), and outcomes of asynchronous computations: a
    value, an error, a panic, or never.
  \<^item> \<open>Std_Net\<close>: IP and socket addresses of \<open>std::net\<close>, printing and parsing, with their
    round trips.
  \<^item> \<open>Catalog\<close>: address tables and host names (\<open>telegram/catalog.rs\<close>).
  \<^item> \<open>Cipher\<close>: the interface to AES-256 in counter mode as the locale \<open>stream_cipher\<close>,
    interpreted on counter mode over any block function.
  \<^item> \<open>Tg_Init\<close>: reading and patching the init packet (\<open>telegram/init.rs\<close>).
  \<^item> \<open>Splitter\<close>: cutting the upstream at message boundaries (\<open>telegram/splitter.rs\<close>).
  \<^item> \<open>Socks\<close>: the handshake and the account list (\<open>modules/socks.rs\<close>), proved correct against
    the client's side of RFC 1928 and RFC 1929.
  \<^item> \<open>Ws_Frame\<close>, \<open>Ws_Handshake\<close>: frames and the upgrade handshake (\<open>modules/ws.rs\<close>). The
    locale \<open>frame_codec\<close> states what a writer and a reader of frames promise each other; it is
    interpreted on the program's masked frames and on a server's unmasked ones.
  \<^item> \<open>Relay\<close>: the bridge as two loops that share the writer, run by an arbitrary schedule of
    turns, with the lock on it where a loop waits for ever, and the plain TCP relay
    (\<open>modules/relay.rs\<close>).
  \<^item> \<open>Backoff\<close>: the gate (\<open>routing/backoff.rs\<close>), with the contract \<open>probe_gate\<close>, its extension
    \<open>ws_gate\<close> by which a table answers as its history determines, and an abstract
    system of any number of clients as an inductive step relation.
  \<^item> \<open>Ipv6_Cache\<close>: the learned data centres (\<open>routing/ipv6_cache.rs\<close>), locale \<open>spelled_cache\<close>.
  \<^item> \<open>Config\<close>: configuration and announced links (\<open>config.rs\<close>).
  \<^item> \<open>Routing\<close>: one client from handshake to relay (\<open>modules/routing.rs\<close>).
  \<^item> \<open>Listen\<close>, \<open>Server\<close>: sockets as sequences of system calls, accept loops, the health
    endpoint, and the concurrent clients as a step relation that refines the gate system of
    \<open>Backoff\<close> (\<open>runtime/listen.rs\<close>, \<open>runtime/server.rs\<close>, \<open>modules/health.rs\<close>).
  \<^item> \<open>Pool_Stats\<close>: the connection pool and the counters (\<open>modules/pool.rs\<close>,
    \<open>modules/stats.rs\<close>), which the rest of the program does not use.
  \<^item> \<open>Program\<close>: \<open>main.rs\<close> and \<open>runtime/shutdown.rs\<close>: the server and the signals race over a list
    of timed events; how the program ends and whom it has served by then.
  \<^item> \<open>Index_Checks\<close>: the routines that index or slice at computed places once more, with every
    access checked, and that no check ever fails.
  \<^item> \<open>Panic_Free\<close>: which of the explicit panics a client's task can end in, over all components.
  \<^item> \<open>Unit_Tests\<close>: the \<open>tests\<close> modules of the repository, test by test, as predicates on the
    model: a regression check of the definitions.
  \<^item> this theory: a Telegram session from end to end.

  State. The two global tables are threaded through the routing functions as a record. A
  stream carries the bytes that still arrive and those written. Third-party code is a
  parameter: cipher, SHA-1, base64, random bytes, TCP and TLS connections, the resolver, the
  operating system's answers to socket calls, the interface list, the signals, the order in
  which \<open>select!\<close> polls. Hypotheses about it are the contract of the cipher and that a random
  mask has four bytes; the unit tests also rely on the sample answer of RFC 6455.

  Termination and bounds. All loops are total functions: those over input by structural
  recursion or a measure on the bytes left, the frame readers because every frame takes at
  least two bytes, the header reader because it stops at 8192 bytes. The bridge runs by a
  schedule; \<open>bridge_terminates\<close> bounds the number of turns by the bytes to relay plus two and
  shows that a run which cannot go on has ended both loops, unless a peer is silent, takes no more
  bytes or never completes a shutdown, and \<open>bridge_completes\<close> that a fair schedule ends a relay
  between ending peers with success. No fuel is used.

  What is proved. Round trips (init packets, frames, addresses, accounts, responses),
  soundness and completeness of the SOCKS handshake, soundness of the WebSocket upgrade,
  losslessness of both directions of the bridge under every interleaving, exactness of the
  address ranges, correctness of the message splitting, the gate's cooldown, cause and
  recovery properties for any number of interleaving clients, the gate's table as a refinement
  of its history, completeness of a relay that succeeds, invariants of the tables, indices within
  their bounds, the end of the program, and the composition of all this for a client. Some properties state where the code falls short
  of its documentation or of the protocol: a message that spans two reads is cut inside, the
  connect timeout does not cover the HTTP exchange, a frame header can make the reader panic,
  a disabled route reopens under concurrency, a ping after the client's end of file aborts the
  download, and a server that stops reading blocks it at the next ping.

  Modelling decisions. The steps of a client up to the gate are atomic in \<open>Server\<close>, and its
  arrival time is read when the gate is asked; the code reads the clock just before taking
  the lock. A turn of a bridge loop is atomic, which is what the writer's mutex gives for
  turns that write. A turn whose write or shutdown waits for a peer that never makes room is its
  loop's last one, with the result \<open>Some Pending\<close>, and it keeps the lock it holds: a peer that reads
  again later is one that had the room from the start. A write and the flush behind it are one
  operation. Once a shutdown has been called, the sending side takes nothing more, even if the
  shutdown fails. Counters wrap, as in release builds. \<open>usize\<close> is 64 bits wide. A panic is
  an outcome of a computation; a message of \<open>expect\<close> includes the text of the error.

  Not modelled: a failed allocation, which aborts the process (the payload of a server frame is
  allocated at its announced length, so a large one below \<open>isize::MAX\<close> can do that), and the
  \<open>expect\<close> on the global locks, which would need a panic inside a critical section; logging except the messages at the start (\<open>init_logging\<close> sets up a crate), the
  command line parser, whose result is an argument, the TLS configuration (\<open>tls_connector\<close>),
  dropping of sockets on errors, and \<open>split\<close> and \<open>into_inner\<close>, which only hand the stream on:
  both halves of a client are the one stream here.
\<close>

section \<open>One session from end to end\<close>

text \<open>
  A client whose request selects the route \<open>key\<close> with init packet \<open>pkt\<close> to be sent, leaving
  \<open>tail\<close> unread, while the gate admits the route and the \<open>k\<close>-th host is the first to accept,
  with connection \<open>w\<close>.
\<close>

definition telegram_session ::
    "'c route_env \<Rightarrow> routed_config \<Rightarrow> nat \<Rightarrow> stream \<Rightarrow> route_globals \<Rightarrow> ws_key \<Rightarrow> bytes \<Rightarrow> bytes \<Rightarrow> nat \<Rightarrow> stream \<Rightarrow> bool" where
  "telegram_session env cfg now s g key pkt tail k w \<longleftrightarrow>
     (\<exists>t p init_data r. asks_for (socks_auth cfg) t p (init_data @ tail) s \<and> length init_data = 64
        \<and> is_telegram_ip (target_text t) = Some True \<and> \<not> is_http_transport init_data
        \<and> resolve_telegram_init (env_cipher env) (ipv6_cache g) (target_text t) init_data = Some r
        \<and> i_dc (info r) = Some (fst key) \<and> i_is_media (info r) = snd key \<and> packet r = pkt)
     \<and> admitted (fst (begin_probe key now (backoff g)))
     \<and> k < length (ws_domains (fst key) (snd key))
     \<and> host_answer (env_nets env) cfg (fst key) (snd key) k = Ok w
     \<and> (\<forall>j < k. \<exists>e. host_answer (env_nets env) cfg (fst key) (snd key) j = Err e)"

lemma length_resolved_packet:
  "resolve_telegram_init C cache h init_data = Some r \<Longrightarrow> length (packet r) = length init_data"
  by (auto simp: resolve_telegram_init_def Let_def split: if_splits option.splits)

lemma telegram_session_run:
  assumes "telegram_session env cfg now s g key pkt tail k w"
  shows "\<exists>g'. route_client env cfg now s g
    = (Bridged (bridge_ws_tcp (env_cipher env) (env_rnds env) (env_sched env) (answered (socks_auth cfg) tail s) w pkt
         (splitter_new (env_cipher env) pkt)), clear_ws_probe key g')" and "length pkt = 64"
proof -
  from assms obtain t p init_data r where
    t: "asks_for (socks_auth cfg) t p (init_data @ tail) s" "length init_data = 64" "is_telegram_ip (target_text t) = Some True"
    and http: "\<not> is_http_transport init_data"
    and r: "resolve_telegram_init (env_cipher env) (ipv6_cache g) (target_text t) init_data = Some r"
    and key: "i_dc (info r) = Some (fst key)" "i_is_media (info r) = snd key" and pkt: "packet r = pkt"
    unfolding telegram_session_def by blast
  from length_resolved_packet [OF r] pkt t(2) show "length pkt = 64" by simp
  have "\<not> is_http_transport pkt" using http resolve_packet_http [OF r] pkt by simp
  with route_begin_telegram [OF t r, of now] key pkt assms obtain g' where
    b: "route_begin env cfg now s g
      = (Inr \<lparr>rd_stream = answered (socks_auth cfg) tail s, rd_packet = pkt, rd_key = key, rd_now = now\<rparr>, g')"
    by (auto simp: telegram_session_def route_resolved_def Let_def case_prod_beta admitted_def split: ws_decision.splits)
  obtain a where "connect_ws_route (env_nets env) cfg (fst key) (snd key) = Ok a" "att_client a = Some w"
    using assms connect_ws_from_Some [of "env_nets env" 0 "connect_timeout_secs cfg * 1000" "ws_domains (fst key) (snd key)" True w]
    unfolding telegram_session_def connect_ws_route_def add_0 by blast
  with b show "\<exists>g'. route_client env cfg now s g
    = (Bridged (bridge_ws_tcp (env_cipher env) (env_rnds env) (env_sched env) (answered (socks_auth cfg) tail s) w pkt
         (splitter_new (env_cipher env) pkt)), clear_ws_probe key g')"
    by (auto simp: route_client_def route_finish_def)
qed

text \<open>
  C1. A Telegram session from end to end, for every schedule of the relay: the client whose
  route is open gets its SOCKS replies and is bridged to the first host that accepts; behind
  the upgrade request that host is sent frames, and nothing behind them, whose data are the
  resolved init packet followed by exactly the bytes taken from the client so far; of the server's
  frames some have been taken, in order, and the client has been sent exactly their data; and the
  gate of the route is open again. A session that ends with success has relayed all the client's
  bytes and all data up to the server's close, and it does end so when both sides close and can
  be shut down, the server does not ping and the schedule gives each loop enough turns.
\<close>

theorem telegram_session_lossless:
  assumes "telegram_session env cfg now s g key pkt tail k w" "env_cipher env = ctr_api enc"
    and "wf_draws (env_rnds env)" "writable w" "writable s"
    and "\<forall>f \<in> set fs. wf_server_frame f" "rx w = concat (map server_bytes fs)"
  shows "\<exists>res b g1 sent n frames j. route_client env cfg now s g = (Bridged (res, Some b), g1)
    \<and> tail = sent @ rx (client b) \<and> prefix (tx w) (tx (ws b))
    \<and> fst (read_n n read_frame (open_stream (drop (length (tx w)) (tx (ws b))) Eof)) = Ok frames \<and> n > length frames
    \<and> concat (map data_of frames) = pkt @ sent
    \<and> tx (client b) = tx s @ server_replies (socks_auth cfg) @ concat (map (data_of \<circ> server_view) (take j fs))
    \<and> rx (ws b) = concat (map server_bytes (drop j fs))
    \<and> fst (begin_probe key t' (backoff g1)) = ProbeNow
    \<and> (\<forall>u d. res = Ok (u, d) \<longrightarrow>
          sent = tail \<and> tx (client b) = tx s @ server_replies (socks_auth cfg) @ down_data fs)
    \<and> (rx_end w = Eof \<longrightarrow> rx_end s = Eof \<longrightarrow> shuts_down w \<longrightarrow> shuts_down s
        \<longrightarrow> (\<forall>f \<in> set fs. \<not> is_ping (server_view f))
        \<longrightarrow> length tail < length (filter is_up (env_sched env))
        \<longrightarrow> length (rx w) < length (filter (\<lambda>t. \<not> is_up t) (env_sched env))
        \<longrightarrow> (\<exists>u d. res = Ok (u, d)))"
proof -
  let ?c = "answered (socks_auth cfg) tail s" and ?sp = "splitter_new (env_cipher env) pkt"
  obtain g1 where run: "route_client env cfg now s g = (Bridged (bridge_ws_tcp (env_cipher env) (env_rnds env) (env_sched env)
      ?c w pkt ?sp), clear_ws_probe key g1)" and len: "length pkt = 64"
    using telegram_session_run [OF assms(1)] by blast
  obtain b0 where b0: "bridge_start (env_rnds env) ?c w pkt ?sp = Ok b0"
    using bridge_start_writable [OF assms(4)] by blast
  let ?b = "run_bridge (env_cipher env) (env_rnds env) (env_sched env) b0"
  have pre: "length pkt \<le> isize_max" "writable ?c" "tx ?c = tx s @ server_replies (socks_auth cfg)" "rx ?c = tail"
    "rx_end ?c = rx_end s" "shuts_down ?c = shuts_down s"
    using len assms(5) by (simp_all add: isize_max_def answered_def writable_def shuts_down_def)
  have r: "bridge_ws_tcp (env_cipher env) (env_rnds env) (env_sched env) ?c w pkt ?sp = (bridge_result ?b, Some ?b)"
    by (simp add: bridge_ws_tcp_def b0)
  from ctr.run_bridge_upstream [OF assms(3,4) pre(1) b0 refl, of enc "env_sched env"] obtain sent n frames where
    up: "tail = sent @ rx (client ?b)" "prefix (tx w) (tx (ws ?b))"
    "fst (read_n n read_frame (open_stream (drop (length (tx w)) (tx (ws ?b))) Eof)) = Ok frames" "n > length frames"
    "concat (map data_of frames) = pkt @ sent" "up_result ?b \<noteq> None \<longrightarrow> sent = tail"
    unfolding assms(2) pre(4) by blast
  from run_bridge_downstream [OF assms(6,7,4) pre(2) b0 refl, of "env_cipher env" "env_sched env"] obtain j where
    down: "tx (client ?b) = tx ?c @ concat (map (data_of \<circ> server_view) (take j fs))"
    "rx (ws ?b) = concat (map server_bytes (drop j fs))" by blast
  have full: "sent = tail \<and> tx (client ?b) = tx ?c @ down_data fs" if ok: "bridge_result ?b = Ok (u, d)" for u d
  proof -
    have "up_result ?b \<noteq> None" using ok by (auto simp: bridge_result_def split: option.splits outcome.splits)
    moreover from ok r have "bridge_ws_tcp (ctr_api enc) (env_rnds env) (env_sched env) ?c w pkt ?sp = (Ok (u, d), Some ?b)"
      by (simp add: assms(2))
    from bridge_delivers [OF assms(3) pre(1) assms(4) pre(2) assms(6,7) this] have "tx (client ?b) = tx ?c @ down_data fs" by blast
    ultimately show ?thesis using up(6) by blast
  qed
  have ends: "\<exists>u d. bridge_result ?b = Ok (u, d)"
    if "rx_end w = Eof" "rx_end s = Eof" "shuts_down w" "shuts_down s" "\<forall>f \<in> set fs. \<not> is_ping (server_view f)"
      "length tail < length (filter is_up (env_sched env))"
      "length (rx w) < length (filter (\<lambda>t. \<not> is_up t) (env_sched env))"
  proof -
    have "\<exists>u d b. bridge_ws_tcp (ctr_api enc) (env_rnds env) (env_sched env) ?c w pkt ?sp = (Ok (u, d), Some b)"
      using bridge_ends_well [OF assms(3) pre(1) assms(4) pre(2) _ assms(7) that(1), of "env_sched env" enc ?sp]
        that assms(6) pre(4-6) by auto
    with r show ?thesis by (auto simp: assms(2))
  qed
  show ?thesis
    unfolding run r pre(3) [unfolded append_assoc, symmetric]
    using up(1-5) down full ends pre(3) by (simp add: gate.start_reset) blast
qed

theorem telegram_session_lossless_witness:
  "\<exists>res b g1 sent n frames. route_client demo_env demo_cfg 0 (demo_request (TargetV6 demo_v6) (demo_init 2 @ [1, 2, 3])) demo_globals
      = (Bridged (res, Some b), g1)
    \<and> [1, 2, 3] = sent @ rx (client b)
    \<and> fst (read_n n read_frame (open_stream (drop (length (tx (demo_open ''kws2.web.telegram.org''))) (tx (ws b))) Eof)) = Ok frames
    \<and> n > length frames \<and> concat (map data_of frames) = demo_init 2 @ sent"
proof -
  let ?s = "demo_request (TargetV6 demo_v6) (demo_init 2 @ [1, 2, 3])" and ?w = "demo_open ''kws2.web.telegram.org''"
  have d: "ws_domains 2 False ! 0 = ''kws2.web.telegram.org''" "0 < length (ws_domains 2 False)" by code_simp+
  have w: "writable ?w" "rx ?w = concat (map server_bytes [(0x82, [])])" "writable ?s" "wf_draws (env_rnds demo_env)"
    "env_nets demo_env 0 = demo_net demo_stream"
    by (simp_all add: demo_open_def demo_stream_def demo_request_def wf_draws_def wf_mask_def demo_env_def wire_length_def)
  have f: "\<forall>f \<in> set [(0x82, [])]. wf_server_frame f" by (simp add: wf_server_frame_def isize_max_def)
  have "fst (begin_probe (2, False) 0 backoff_default) = ProbeNow" by (simp add: begin_probe_decision backoff_default_def)
  then have "telegram_session demo_env demo_cfg 0 ?s demo_globals (2, False) (demo_init 2) [1, 2, 3] 0 ?w"
    unfolding telegram_session_def
    by (intro conjI exI [of _ "TargetV6 demo_v6"] exI [of _ 443] exI [of _ "demo_init 2"])
     (simp_all add: demo_asks [unfolded demo_sel] demo_init demo_v6_telegram demo_not_http resolve_telegram_init_def demo_sel info_of_raw_2 w d [simplified] demo_connect admitted_def)
  from telegram_session_lossless [OF this demo_sel(1) w(4,1,3) f w(2), of 0] show ?thesis by blast
qed

end
